theory Spec2Isabelle
  imports Main "HOL-Library.Word" "HOL-Library.AList" "HOL-Library.Sublist"
begin

unbundle bit_operations_syntax

section \<open>Shared data: JavaScript strings and parsed JSON\<close>

text \<open>
  A JavaScript string is a sequence of UTF-16 code units; \<open>.length\<close> counts code units.
  Where only the shape of a text matters (paths, script output) the code units are
  written as \<open>char\<close>s of a \<open>string\<close>; where bytes matter (the auth token) they are
  \<open>16 word\<close>s and \<open>Buffer.from\<close> is the UTF-8 encoder.
\<close>

type_synonym jsstring = "16 word list"
type_synonym bytes = "8 word list"

text \<open>What \<open>JSON.parse\<close> returns. Numbers are the integers the files hold (timestamps).\<close>

datatype 's json =
    JNull
  | JBool bool
  | JNum int
  | JStr 's
  | JArr "'s json list"
  | JObj "('s \<times> 's json) list"

text \<open>
  A JSON file as the modules read it: \<open>existsSync\<close>, \<open>readFileSync\<close>, \<open>JSON.parse\<close>.
  An object is the list of its properties in insertion order, each key once.
\<close>

datatype 's json_file =
    Missing                       \<comment> \<open>\<open>existsSync\<close> is false\<close>
  | Unreadable                    \<comment> \<open>\<open>readFileSync\<close> throws\<close>
  | Corrupt                       \<comment> \<open>\<open>JSON.parse\<close> throws\<close>
  | Parsed "'s json"

section \<open>auth-manager.ts\<close>

subsection \<open>Library functions used by the module\<close>

text \<open>\<open>String.prototype.trim\<close>: the white space and line terminator code units.\<close>

definition is_js_whitespace :: "16 word \<Rightarrow> bool" where
  "is_js_whitespace u \<longleftrightarrow>
     u \<in> {0x09, 0x0A, 0x0B, 0x0C, 0x0D, 0x20, 0xA0, 0x1680, 0x2028, 0x2029,
          0x202F, 0x205F, 0x3000, 0xFEFF} \<or> (0x2000 \<le> u \<and> u \<le> 0x200A)"

definition trim :: "jsstring \<Rightarrow> jsstring" where
  "trim s = rev (dropWhile is_js_whitespace (rev (dropWhile is_js_whitespace s)))"

text \<open>
  \<open>Buffer.from(s)\<close> of a string: UTF-8. A surrogate pair is one code point of four
  bytes, a lone surrogate is replaced by U+FFFD.
\<close>

definition is_high_surrogate :: "16 word \<Rightarrow> bool" where
  "is_high_surrogate u \<longleftrightarrow> 0xD800 \<le> u \<and> u \<le> 0xDBFF"

definition is_low_surrogate :: "16 word \<Rightarrow> bool" where
  "is_low_surrogate u \<longleftrightarrow> 0xDC00 \<le> u \<and> u \<le> 0xDFFF"

definition utf8_of_code_point :: "nat \<Rightarrow> bytes" where
  "utf8_of_code_point c =
     (if c < 0x80 then [of_nat c]
      else if c < 0x800 then [of_nat (0xC0 + c div 64), of_nat (0x80 + c mod 64)]
      else if c < 0x10000 then
        [of_nat (0xE0 + c div 4096), of_nat (0x80 + (c div 64) mod 64), of_nat (0x80 + c mod 64)]
      else
        [of_nat (0xF0 + c div 262144), of_nat (0x80 + (c div 4096) mod 64),
         of_nat (0x80 + (c div 64) mod 64), of_nat (0x80 + c mod 64)])"

fun Buffer_from :: "jsstring \<Rightarrow> bytes" where
  "Buffer_from [] = []"
| "Buffer_from [u] =
     (if is_high_surrogate u \<or> is_low_surrogate u then utf8_of_code_point 0xFFFD
      else utf8_of_code_point (unat u))"
| "Buffer_from (u # l # us) =
     (if is_high_surrogate u then
        (if is_low_surrogate l
         then utf8_of_code_point (0x10000 + (unat u - 0xD800) * 1024 + (unat l - 0xDC00))
                @ Buffer_from us
         else utf8_of_code_point 0xFFFD @ Buffer_from (l # us))
      else if is_low_surrogate u then utf8_of_code_point 0xFFFD @ Buffer_from (l # us)
      else utf8_of_code_point (unat u) @ Buffer_from (l # us))"

text \<open>\<open>crypto.timingSafeEqual\<close> throws a RangeError when the lengths differ.\<close>

datatype js_error = RangeError | TypeError

definition timingSafeEqual :: "bytes \<Rightarrow> bytes \<Rightarrow> js_error + bool" where
  "timingSafeEqual a b = (if length a \<noteq> length b then Inl RangeError else Inr (a = b))"

text \<open>\<open>buf.toString("hex")\<close>: two lower-case hexadecimal digits for each byte.\<close>

definition hex_digit :: "nat \<Rightarrow> 16 word" where
  "hex_digit n = (if n < 10 then of_nat (0x30 + n) else of_nat (0x57 + n))"

definition to_hex :: "bytes \<Rightarrow> jsstring" where
  "to_hex bs = concat (map (\<lambda>b. [hex_digit (unat b div 16), hex_digit (unat b mod 16)]) bs)"

subsection \<open>The module state and its surroundings\<close>

text \<open>
  What \<open>getToken\<close> reads and writes: the environment variable, the module variable
  \<open>cachedToken\<close>, the file \<open>~/.companion/auth.json\<close>, the random source and the clock.
\<close>

type_synonym auth_file = "jsstring json_file"

record auth_state =
  env_COMPANION_AUTH_TOKEN :: "jsstring option"
  cachedToken :: "jsstring option"
  AUTH_FILE :: auth_file
  file_writable :: bool
  entropy :: "nat \<Rightarrow> 8 word"
  now :: int

definition TOKEN_BYTES :: nat where
  "TOKEN_BYTES = 32"

definition randomBytes :: "auth_state \<Rightarrow> nat \<Rightarrow> bytes" where
  "randomBytes st n = map (entropy st) [0..<n]"

text \<open>The key \<open>"token"\<close> and \<open>"createdAt"\<close> as code units.\<close>

definition key_token :: jsstring where
  "key_token = [0x74, 0x6F, 0x6B, 0x65, 0x6E]"

definition key_createdAt :: jsstring where
  "key_createdAt = [0x63, 0x72, 0x65, 0x61, 0x74, 0x65, 0x64, 0x41, 0x74]"

text \<open>
  \<open>data.token\<close> for the parsed value \<open>data\<close>: reading a property of \<open>null\<close> throws, a
  primitive or an array has no such property, an object has it when the key is present.
\<close>

definition token_property :: "jsstring json \<Rightarrow> js_error + jsstring json option" where
  "token_property data =
     (case data of
        JNull \<Rightarrow> Inl TypeError
      | JObj kvs \<Rightarrow> Inr (map_of kvs key_token)
      | _ \<Rightarrow> Inr None)"

text \<open>The \<open>try\<close> block of \<open>getToken\<close>: the persisted token, when there is a usable one.\<close>

definition read_persisted_token :: "auth_file \<Rightarrow> jsstring option" where
  "read_persisted_token f =
     (case f of
        Parsed data \<Rightarrow>
          (case token_property data of
             Inr (Some (JStr t)) \<Rightarrow> if length t \<ge> 32 then Some t else None
           | _ \<Rightarrow> None)
      | _ \<Rightarrow> None)"

definition truthy_string :: "jsstring option \<Rightarrow> bool" where
  "truthy_string s = (case s of None \<Rightarrow> False | Some t \<Rightarrow> t \<noteq> [])"

definition getToken :: "auth_state \<Rightarrow> jsstring \<times> auth_state" where
  "getToken st =
     (if truthy_string (env_COMPANION_AUTH_TOKEN st)
         \<and> trim (the (env_COMPANION_AUTH_TOKEN st)) \<noteq> []
      then (let t = trim (the (env_COMPANION_AUTH_TOKEN st)) in (t, st\<lparr>cachedToken := Some t\<rparr>))
      else if truthy_string (cachedToken st) then (the (cachedToken st), st)
      else
        (case read_persisted_token (AUTH_FILE st) of
           Some t \<Rightarrow> (t, st\<lparr>cachedToken := Some t\<rparr>)
         | None \<Rightarrow>
             (let token = to_hex (randomBytes st TOKEN_BYTES);
                  data = JObj [(key_token, JStr token), (key_createdAt, JNum (now st))];
                  st' = (if file_writable st then st\<lparr>AUTH_FILE := Parsed data\<rparr> else st)
              in (token, st'\<lparr>cachedToken := Some token\<rparr>))))"

text \<open>
  The candidate of \<open>verifyToken\<close> is declared \<open>string | null | undefined\<close>, but
  \<open>POST /auth/verify\<close> hands it \<open>body.token\<close> of the parsed request body unchecked,
  so at run time it is any JSON value or \<open>undefined\<close>. Of a number only its truthiness
  matters (JSON has no NaN). For an array or an object \<open>Buffer.from\<close> either throws
  or builds bytes from it, depending on its shape: the value carries that outcome.
\<close>

datatype js_value =
    Nullish                              \<comment> \<open>\<open>null\<close> or \<open>undefined\<close>\<close>
  | Text jsstring
  | Zero_number                          \<comment> \<open>\<open>0\<close> or \<open>-0\<close>\<close>
  | Nonzero_number
  | Boolean bool
  | Structured "js_error + bytes"        \<comment> \<open>an array or an object\<close>

text \<open>\<open>!candidate\<close> is the negation of this.\<close>

fun truthy :: "js_value \<Rightarrow> bool" where
  "truthy Nullish = False"
| "truthy (Text s) = (s \<noteq> [])"
| "truthy Zero_number = False"
| "truthy Nonzero_number = True"
| "truthy (Boolean b) = b"
| "truthy (Structured r) = True"

text \<open>
  \<open>Buffer.from(value)\<close>: the UTF-8 bytes of a string; a TypeError for a number, a
  boolean, \<open>null\<close> or \<open>undefined\<close>.
\<close>

fun Buffer_from_value :: "js_value \<Rightarrow> js_error + bytes" where
  "Buffer_from_value (Text s) = Inr (Buffer_from s)"
| "Buffer_from_value (Structured r) = r"
| "Buffer_from_value Nullish = Inl TypeError"
| "Buffer_from_value Zero_number = Inl TypeError"
| "Buffer_from_value Nonzero_number = Inl TypeError"
| "Buffer_from_value (Boolean b) = Inl TypeError"

text \<open>
  \<open>verifyToken\<close>. The result is \<open>Inl\<close> when the call raises; \<open>getToken\<close> has run by
  then, so the state is returned in both cases.
\<close>

definition verifyToken :: "js_value \<Rightarrow> auth_state \<Rightarrow> (js_error + bool) \<times> auth_state" where
  "verifyToken candidate st =
     (if \<not> truthy candidate then (Inr False, st)
      else
        (let (expected, st') = getToken st
         in case Buffer_from_value candidate of
              Inl e \<Rightarrow> (Inl e, st')
            | Inr candidateBuf \<Rightarrow>
                (let expectedBuf = Buffer_from expected
                 in if length candidateBuf \<noteq> length expectedBuf then (Inr False, st')
                    else (timingSafeEqual candidateBuf expectedBuf, st'))))"

text \<open>A state whose token is the one character \<open>a\<close>, from the environment variable.\<close>

definition example_auth_state :: auth_state where
  "example_auth_state =
     \<lparr>env_COMPANION_AUTH_TOKEN = Some [0x20, 0x61], cachedToken = None, AUTH_FILE = Missing,
      file_writable = True, entropy = (\<lambda>_. 0), now = 0\<rparr>"

section \<open>linear-project-manager.ts\<close>

text \<open>
  A mapping in memory is a JavaScript object: the entries read from the file keep
  whatever properties they have, so a mapping is modelled as its property list.
  Assigning to a property replaces its value in place or appends the property
  (\<open>AList.update\<close>).
\<close>

type_synonym js_object = "(string \<times> string json) list"

record team_data =
  teamId :: string
  teamKey :: string
  teamName :: string

datatype io_error = WriteFailed

record lpm_state =
  loaded :: bool
  mappings :: "js_object list"
  projects_file :: "string json_file"
  projects_file_writable :: bool
  clock :: int

definition normalizeRoot :: "string \<Rightarrow> string" where
  "normalizeRoot root =
     (let stripped = rev (dropWhile (\<lambda>c. c = CHR ''/'') (rev root))
      in if stripped = [] then ''/'' else stripped)"

text \<open>The type guard of \<open>ensureLoaded\<close>'s filter.\<close>

definition typeof_string :: "string json option \<Rightarrow> bool" where
  "typeof_string v = (case v of Some (JStr _) \<Rightarrow> True | _ \<Rightarrow> False)"

fun as_mapping :: "string json \<Rightarrow> js_object option" where
  "as_mapping (JObj kvs) =
     (if typeof_string (map_of kvs ''repoRoot'') \<and> typeof_string (map_of kvs ''teamId'')
      then Some kvs else None)"
| "as_mapping _ = None"

definition ensureLoaded :: "lpm_state \<Rightarrow> lpm_state" where
  "ensureLoaded st =
     (if loaded st then st
      else
        (case projects_file st of
           Missing \<Rightarrow> st\<lparr>loaded := True\<rparr>
         | Unreadable \<Rightarrow> st\<lparr>mappings := [], loaded := True\<rparr>
         | Corrupt \<Rightarrow> st\<lparr>mappings := [], loaded := True\<rparr>
         | Parsed raw \<Rightarrow>
             (case raw of
                JArr xs \<Rightarrow> st\<lparr>mappings := List.map_filter as_mapping xs, loaded := True\<rparr>
              | _ \<Rightarrow> st\<lparr>mappings := [], loaded := True\<rparr>)))"

text \<open>\<open>persist\<close>: \<open>writeFileSync\<close> throws when the file cannot be written.\<close>

definition persist :: "lpm_state \<Rightarrow> io_error + lpm_state" where
  "persist st =
     (if projects_file_writable st
      then Inr (st\<lparr>projects_file := Parsed (JArr (map JObj (mappings st)))\<rparr>)
      else Inl WriteFailed)"

definition listMappings :: "lpm_state \<Rightarrow> js_object list \<times> lpm_state" where
  "listMappings st = (let st' = ensureLoaded st in (mappings st', st'))"

definition has_root :: "string \<Rightarrow> js_object \<Rightarrow> bool" where
  "has_root key m \<longleftrightarrow> map_of m ''repoRoot'' = Some (JStr key)"

definition getMapping :: "string \<Rightarrow> lpm_state \<Rightarrow> js_object option \<times> lpm_state" where
  "getMapping repoRoot st =
     (let st' = ensureLoaded st; key = normalizeRoot repoRoot
      in (find (has_root key) (mappings st'), st'))"

text \<open>The in-place mutation of the object that \<open>find\<close> returned: the first match.\<close>

fun update_first :: "('a \<Rightarrow> bool) \<Rightarrow> ('a \<Rightarrow> 'a) \<Rightarrow> 'a list \<Rightarrow> 'a list" where
  "update_first P f [] = []"
| "update_first P f (x # xs) = (if P x then f x # xs else x # update_first P f xs)"

definition assign_team :: "team_data \<Rightarrow> int \<Rightarrow> js_object \<Rightarrow> js_object" where
  "assign_team d t existing =
     AList.update ''updatedAt'' (JNum t)
       (AList.update ''teamName'' (JStr (teamName d))
         (AList.update ''teamKey'' (JStr (teamKey d))
           (AList.update ''teamId'' (JStr (teamId d)) existing)))"

definition new_mapping :: "string \<Rightarrow> team_data \<Rightarrow> int \<Rightarrow> js_object" where
  "new_mapping key d t =
     [(''repoRoot'', JStr key), (''teamId'', JStr (teamId d)), (''teamKey'', JStr (teamKey d)),
      (''teamName'', JStr (teamName d)), (''createdAt'', JNum t), (''updatedAt'', JNum t)]"

text \<open>
  \<open>upsertMapping\<close> returns the mapping, or raises when \<open>persist\<close> does; the memory is
  updated before \<open>persist\<close> runs, so the state is returned in both cases.
\<close>

definition upsertMapping ::
  "string \<Rightarrow> team_data \<Rightarrow> lpm_state \<Rightarrow> (io_error + js_object option) \<times> lpm_state" where
  "upsertMapping repoRoot d st =
     (let st1 = ensureLoaded st;
          key = normalizeRoot repoRoot;
          t = clock st1;
          st2 = (case find (has_root key) (mappings st1) of
                   Some existing \<Rightarrow>
                     st1\<lparr>mappings := update_first (has_root key) (assign_team d t) (mappings st1)\<rparr>
                 | None \<Rightarrow> st1\<lparr>mappings := mappings st1 @ [new_mapping key d t]\<rparr>)
      in case persist st2 of
           Inl e \<Rightarrow> (Inl e, st2)
         | Inr st3 \<Rightarrow> (Inr (find (has_root key) (mappings st3)), st3))"

definition removeMapping :: "string \<Rightarrow> lpm_state \<Rightarrow> (io_error + bool) \<times> lpm_state" where
  "removeMapping repoRoot st =
     (let st1 = ensureLoaded st; key = normalizeRoot repoRoot
      in case find (has_root key) (mappings st1) of
           None \<Rightarrow> (Inr False, st1)
         | Some m \<Rightarrow>
             (let st2 = st1\<lparr>mappings := takeWhile (\<lambda>x. \<not> has_root key x) (mappings st1)
                                   @ tl (dropWhile (\<lambda>x. \<not> has_root key x) (mappings st1))\<rparr>
              in case persist st2 of Inl e \<Rightarrow> (Inl e, st2) | Inr st3 \<Rightarrow> (Inr True, st3)))"

text \<open>The files that hold no mapping: unreadable, not JSON, not an array, or an array
  without a single entry that passes the type guard.\<close>

definition invalid_projects_file :: "string json_file \<Rightarrow> bool" where
  "invalid_projects_file f =
     (case f of
        Missing \<Rightarrow> False
      | Unreadable \<Rightarrow> True
      | Corrupt \<Rightarrow> True
      | Parsed raw \<Rightarrow> (case raw of JArr xs \<Rightarrow> list_all (\<lambda>x. as_mapping x = None) xs | _ \<Rightarrow> True))"

definition team_fields :: "string set" where
  "team_fields = {''teamId'', ''teamKey'', ''teamName'', ''updatedAt''}"

text \<open>The array \<open>mappings\<close> after \<open>upsertMapping\<close>, whether or not \<open>persist\<close> succeeds.\<close>

definition upsert_memory :: "string \<Rightarrow> team_data \<Rightarrow> lpm_state \<Rightarrow> js_object list" where
  "upsert_memory r d st =
     (let ms = mappings (ensureLoaded st); key = normalizeRoot r; t = clock (ensureLoaded st)
      in case find (has_root key) ms of
           Some existing \<Rightarrow> update_first (has_root key) (assign_team d t) ms
         | None \<Rightarrow> ms @ [new_mapping key d t])"

text \<open>Two concrete states: a file with one stored mapping, and a file that is not an array.\<close>

definition example_projects_state :: lpm_state where
  "example_projects_state =
     \<lparr>loaded = False, mappings = [],
      projects_file = Parsed (JArr [JNull,
        JObj [(''repoRoot'', JStr ''/repo''), (''teamId'', JStr ''old''), (''createdAt'', JNum 1)]]),
      projects_file_writable = True, clock = 5\<rparr>"

definition example_bad_projects_state :: lpm_state where
  "example_bad_projects_state =
     \<lparr>loaded = False, mappings = [], projects_file = Parsed (JObj []),
      projects_file_writable = True, clock = 5\<rparr>"

section \<open>session-creation-pipeline.ts: the init script step\<close>

text \<open>
  The model starts where step 4d of \<open>_run\<close> starts: the container exists and is tracked
  by the container manager under \<open>tempId\<close>. The reporter is the log of the calls made
  to it. \<open>execInContainerAsync\<close> either throws (its timeout, a failed spawn), modelled
  by the message of what it throws, or returns an exit code and the output.
\<close>

text \<open>\<open>String(n)\<close> for an integer: its decimal digits.\<close>

definition digit_char :: "nat \<Rightarrow> char" where
  "digit_char d = ''0123456789'' ! (d mod 10)"

function show_nat :: "nat \<Rightarrow> string" where
  "show_nat n = (if n < 10 then [digit_char n] else show_nat (n div 10) @ [digit_char (n mod 10)])"
  by pat_completeness auto
termination
  by (relation "measure id") auto

declare show_nat.simps [simp del]

definition show_int :: "int \<Rightarrow> string" where
  "show_int i = (if i < 0 then CHR ''-'' # show_nat (nat (- i)) else show_nat (nat i))"

definition is_ws_char :: "char \<Rightarrow> bool" where
  "is_ws_char c = is_js_whitespace (of_char c)"

definition trim_string :: "string \<Rightarrow> string" where
  "trim_string s = rev (dropWhile is_ws_char (rev (dropWhile is_ws_char s)))"

text \<open>\<open>s.slice(0, n)\<close> and \<open>s.slice(-n)\<close> for \<open>n > 0\<close>.\<close>

definition slice_head :: "nat \<Rightarrow> string \<Rightarrow> string" where
  "slice_head n s = take n s"

definition slice_tail :: "nat \<Rightarrow> string \<Rightarrow> string" where
  "slice_tail n s = drop (length s - n) s"

datatype report =
    Progress string string string      \<comment> \<open>step, label, status\<close>
  | Error string int string            \<comment> \<open>message, HTTP status, step\<close>

record container_manager =
  containers :: "string \<rightharpoonup> string"     \<comment> \<open>session id to container id\<close>
  docker_rm :: "string list"              \<comment> \<open>the container ids given to \<open>docker rm -f\<close>\<close>

record pipeline_state =
  manager :: container_manager
  reports :: "report list"
  launched :: "string list"               \<comment> \<open>the sessions \<open>launcher.launch\<close> created\<close>

datatype pipeline_error = PipelineAbort

definition removeContainer :: "string \<Rightarrow> container_manager \<Rightarrow> container_manager" where
  "removeContainer sessionId cm =
     (case containers cm sessionId of
        None \<Rightarrow> cm
      | Some containerId \<Rightarrow>
          cm\<lparr>docker_rm := docker_rm cm @ [containerId],
             containers := (containers cm)(sessionId := None)\<rparr>)"

definition r_progress :: "string \<Rightarrow> string \<Rightarrow> string \<Rightarrow> pipeline_state \<Rightarrow> pipeline_state" where
  "r_progress step label status st = st\<lparr>reports := reports st @ [Progress step label status]\<rparr>"

definition r_error :: "string \<Rightarrow> int \<Rightarrow> string \<Rightarrow> pipeline_state \<Rightarrow> pipeline_state" where
  "r_error message status step st = st\<lparr>reports := reports st @ [Error message status step]\<rparr>"

definition truncate_output :: "string \<Rightarrow> string" where
  "truncate_output output =
     (if length output > 2000
      then slice_head 500 output @ [CHR 0x0A] @ ''...[truncated]...'' @ [CHR 0x0A]
             @ slice_tail 1500 output
      else output)"

definition init_script_failed_message :: "int \<Rightarrow> string \<Rightarrow> string" where
  "init_script_failed_message exitCode output =
     ''Init script failed (exit '' @ show_int exitCode @ ''):'' @ [CHR 0x0A] @ truncate_output output"

definition init_script_step ::
  "string option \<Rightarrow> string \<Rightarrow> (string + int \<times> string) \<Rightarrow> pipeline_state
     \<Rightarrow> (pipeline_error + unit) \<times> pipeline_state" where
  "init_script_step initScript tempId outcome st =
     (if (case initScript of None \<Rightarrow> False | Some script \<Rightarrow> trim_string script \<noteq> [])
      then
        (let st1 = r_progress ''running_init_script'' ''Running init script...'' ''in_progress'' st
         in case outcome of
              Inr (exitCode, output) \<Rightarrow>
                (if exitCode \<noteq> 0
                 then
                   (let st2 = st1\<lparr>manager := removeContainer tempId (manager st1)\<rparr>;
                        st3 = r_error (init_script_failed_message exitCode output) 503
                                ''running_init_script'' st2
                    in (Inl PipelineAbort, st3))
                 else
                   (Inr (), r_progress ''running_init_script'' ''Init script complete'' ''done'' st1))
            | Inl reason \<Rightarrow>
                (let st2 = st1\<lparr>manager := removeContainer tempId (manager st1)\<rparr>;
                     st3 = r_error (''Init script execution failed: '' @ reason) 503
                             ''running_init_script'' st2
                 in (Inl PipelineAbort, st3)))
      else (Inr (), st))"

text \<open>
  Steps 5 and 6 of \<open>_run\<close>: the launcher creates the session, the container is tracked
  under the session's id.
\<close>

definition retrack :: "string \<Rightarrow> string \<Rightarrow> container_manager \<Rightarrow> container_manager" where
  "retrack tempId newSessionId cm =
     (case containers cm tempId of
        None \<Rightarrow> cm
      | Some containerId \<Rightarrow>
          cm\<lparr>containers := ((containers cm)(tempId := None))(newSessionId \<mapsto> containerId)\<rparr>)"

definition launch_cli :: "string \<Rightarrow> string \<Rightarrow> pipeline_state \<Rightarrow> pipeline_state" where
  "launch_cli tempId sessionId st =
     (let st1 = r_progress ''launching_cli'' ''Launching Claude Code...'' ''in_progress'' st;
          st2 = st1\<lparr>launched := launched st1 @ [sessionId]\<rparr>;
          st3 = st2\<lparr>manager := retrack tempId sessionId (manager st2)\<rparr>
      in r_progress ''launching_cli'' ''Session started'' ''done'' st3)"

definition run_from_init_script ::
  "string option \<Rightarrow> string \<Rightarrow> string \<Rightarrow> (string + int \<times> string) \<Rightarrow> pipeline_state
     \<Rightarrow> (pipeline_error + string) \<times> pipeline_state" where
  "run_from_init_script initScript tempId sessionId outcome st =
     (case init_script_step initScript tempId outcome st of
        (Inl e, st') \<Rightarrow> (Inl e, st')
      | (Inr _, st') \<Rightarrow> (Inr sessionId, launch_cli tempId sessionId st'))"

text \<open>\<open>runSessionCreationPipeline\<close>: a \<open>PipelineAbort\<close> becomes the result \<open>null\<close>.\<close>

definition runSessionCreationPipeline ::
  "string option \<Rightarrow> string \<Rightarrow> string \<Rightarrow> (string + int \<times> string) \<Rightarrow> pipeline_state
     \<Rightarrow> string option \<times> pipeline_state" where
  "runSessionCreationPipeline initScript tempId sessionId outcome st =
     (case run_from_init_script initScript tempId sessionId outcome st of
        (Inl PipelineAbort, st') \<Rightarrow> (None, st')
      | (Inr session, st') \<Rightarrow> (Some session, st'))"

definition error_messages :: "report list \<Rightarrow> string list" where
  "error_messages rs = concat (map (\<lambda>r. case r of Error m _ _ \<Rightarrow> [m] | _ \<Rightarrow> []) rs)"

definition example_pipeline_state :: pipeline_state where
  "example_pipeline_state =
     \<lparr>manager = \<lparr>containers = [''tmp12345'' \<mapsto> ''c0ffee''], docker_rm = []\<rparr>,
      reports = [], launched = []\<rparr>"

section \<open>routes.ts: cleanupWorktree\<close>

record worktree_mapping =
  sessionId :: string
  repoRoot :: string
  branch :: string                        \<comment> \<open>the branch the user asked for\<close>
  actualBranch :: "string option"
  worktreePath :: string

text \<open>
  Modelled from the spec: worktree-tracker.ts is not among the sources. The tracker holds
  the mappings by session id; \<open>getBySession\<close> finds one and \<open>removeBySession\<close> drops it.
  Whether other sessions still use a worktree (\<open>isWorktreeInUse\<close>) is an answer of the
  tracker that the model takes as given.
\<close>

definition getBySession :: "string \<Rightarrow> worktree_mapping list \<Rightarrow> worktree_mapping option" where
  "getBySession sid ms = find (\<lambda>m. sessionId m = sid) ms"

definition removeBySession :: "string \<Rightarrow> worktree_mapping list \<Rightarrow> worktree_mapping list" where
  "removeBySession sid ms = filter (\<lambda>m. sessionId m \<noteq> sid) ms"

text \<open>
  Modelled from the spec: git-utils.ts is not among the sources. \<open>removeWorktree\<close> refuses
  a dirty worktree without \<open>force\<close> (\<open>removed: false\<close>); otherwise it removes the worktree
  and then deletes \<open>branchToDelete\<close>, when one is given. \<open>git_fails\<close> stands for a git
  command that fails: nothing is removed then.
\<close>

record git_state =
  worktrees :: "string set"
  dirty_worktrees :: "string set"
  branches :: "string set"
  git_fails :: bool

definition isWorktreeDirty :: "string \<Rightarrow> git_state \<Rightarrow> bool" where
  "isWorktreeDirty p g \<longleftrightarrow> p \<in> dirty_worktrees g"

definition removeWorktree ::
  "string \<Rightarrow> string \<Rightarrow> bool \<Rightarrow> string option \<Rightarrow> git_state \<Rightarrow> bool \<times> git_state" where
  "removeWorktree root p force branchToDelete g =
     (if git_fails g \<or> (isWorktreeDirty p g \<and> \<not> force) then (False, g)
      else (True, g\<lparr>worktrees := worktrees g - {p},
                     dirty_worktrees := dirty_worktrees g - {p},
                     branches := (case branchToDelete of
                                    None \<Rightarrow> branches g
                                  | Some b \<Rightarrow> branches g - {b})\<rparr>))"

record worktree_state =
  tracker :: "worktree_mapping list"
  isWorktreeInUse :: "string \<Rightarrow> string \<Rightarrow> bool"
  git :: git_state

record cleanup_result =
  cleaned :: bool
  dirty :: "bool option"
  path :: string

text \<open>\<open>force\<close> is the truthiness of the argument; \<open>None\<close> is the result \<open>undefined\<close>.\<close>

definition cleanupWorktree ::
  "string \<Rightarrow> bool \<Rightarrow> worktree_state \<Rightarrow> cleanup_result option \<times> worktree_state" where
  "cleanupWorktree sid force st =
     (case getBySession sid (tracker st) of
        None \<Rightarrow> (None, st)
      | Some mapping \<Rightarrow>
          (if isWorktreeInUse st (worktreePath mapping) sid
           then (Some \<lparr>cleaned = False, dirty = None, path = worktreePath mapping\<rparr>,
                 st\<lparr>tracker := removeBySession sid (tracker st)\<rparr>)
           else
             (let is_dirty = isWorktreeDirty (worktreePath mapping) (git st)
              in if is_dirty \<and> \<not> force
                 then (Some \<lparr>cleaned = False, dirty = Some True, path = worktreePath mapping\<rparr>, st)
                 else
                   (let branchToDelete =
                          (case actualBranch mapping of
                             None \<Rightarrow> None
                           | Some a \<Rightarrow> if a \<noteq> [] \<and> a \<noteq> branch mapping then Some a else None);
                        (removed, g') =
                          removeWorktree (repoRoot mapping) (worktreePath mapping) is_dirty
                            branchToDelete (git st);
                        st1 = st\<lparr>git := g'\<rparr>;
                        st2 = (if removed then st1\<lparr>tracker := removeBySession sid (tracker st1)\<rparr>
                               else st1)
                    in (Some \<lparr>cleaned = removed, dirty = None, path = worktreePath mapping\<rparr>, st2)))))"

text \<open>Two sessions on one dirty worktree.\<close>

definition example_shared_worktree :: worktree_state where
  "example_shared_worktree =
     \<lparr>tracker =
        [\<lparr>sessionId = ''s1'', repoRoot = ''/repo'', branch = ''feat'', actualBranch = Some ''feat-wt-1'',
          worktreePath = ''/wt/feat''\<rparr>,
         \<lparr>sessionId = ''s2'', repoRoot = ''/repo'', branch = ''feat'', actualBranch = Some ''feat-wt-1'',
          worktreePath = ''/wt/feat''\<rparr>],
      isWorktreeInUse = (\<lambda>p sid. True),
      git = \<lparr>worktrees = {''/wt/feat''}, dirty_worktrees = {''/wt/feat''},
             branches = {''main'', ''feat'', ''feat-wt-1''}, git_fails = False\<rparr>\<rparr>"

text \<open>One session on a clean worktree with a derived branch.\<close>

definition example_own_worktree :: worktree_state where
  "example_own_worktree =
     \<lparr>tracker =
        [\<lparr>sessionId = ''s1'', repoRoot = ''/repo'', branch = ''feat'', actualBranch = Some ''feat-wt-1'',
          worktreePath = ''/wt/feat''\<rparr>],
      isWorktreeInUse = (\<lambda>p sid. False),
      git = \<lparr>worktrees = {''/wt/feat''}, dirty_worktrees = {},
             branches = {''main'', ''feat'', ''feat-wt-1''}, git_fails = False\<rparr>\<rparr>"

text \<open>One session on a dirty worktree.\<close>

definition example_dirty_worktree :: worktree_state where
  "example_dirty_worktree =
     example_own_worktree\<lparr>git := (git example_own_worktree)\<lparr>dirty_worktrees := {''/wt/feat''}\<rparr>\<rparr>"

section \<open>ws.ts and ws-handlers.ts: the sequence cursor of the browser client\<close>

text \<open>
  Sequence numbers are the integers that the server assigns, so \<open>Math.floor\<close> is the
  identity on them. \<open>Number(raw)\<close> of a stored text is an integer or not finite.
  A message is its optional \<open>seq\<close> and its body; every body other than an
  \<open>event_replay\<close> goes to its own handler, which does not touch the cursor: the model
  records it in \<open>handled\<close>.
\<close>

datatype stored_text = Empty_text | Not_finite | Number_text int

datatype message = Message "int option" body
  and body = Other string | EventReplay "(int \<times> message) list"

record ws_state =
  lastSeqBySession :: "string \<rightharpoonup> int"
  localStorage :: "string \<rightharpoonup> stored_text"
  storage_throws :: bool
  handled :: "(string \<times> string) list"       \<comment> \<open>session and body, in the order handled\<close>
  acks :: "(string \<times> int) list"             \<comment> \<open>the \<open>session_ack\<close> messages sent\<close>

definition getLastSeqStorageKey :: "string \<Rightarrow> string" where
  "getLastSeqStorageKey sid = ''companion:last-seq:'' @ sid"

definition getLastSeq :: "string \<Rightarrow> ws_state \<Rightarrow> int \<times> ws_state" where
  "getLastSeq sid st =
     (case lastSeqBySession st sid of
        Some cached \<Rightarrow> (cached, st)
      | None \<Rightarrow>
          (if storage_throws st then (0, st)
           else
             (let normalized =
                    (case localStorage st (getLastSeqStorageKey sid) of
                       None \<Rightarrow> 0
                     | Some Empty_text \<Rightarrow> 0
                     | Some Not_finite \<Rightarrow> 0
                     | Some (Number_text parsed) \<Rightarrow> max 0 parsed)
              in (normalized, st\<lparr>lastSeqBySession := (lastSeqBySession st)(sid \<mapsto> normalized)\<rparr>))))"

definition setLastSeq :: "string \<Rightarrow> int \<Rightarrow> ws_state \<Rightarrow> ws_state" where
  "setLastSeq sid s st =
     (let normalized = max 0 s;
          st1 = st\<lparr>lastSeqBySession := (lastSeqBySession st)(sid \<mapsto> normalized)\<rparr>
      in if storage_throws st1 then st1
         else st1\<lparr>localStorage := (localStorage st1)(getLastSeqStorageKey sid \<mapsto> Number_text normalized)\<rparr>)"

definition ackSeq :: "string \<Rightarrow> int \<Rightarrow> ws_state \<Rightarrow> ws_state" where
  "ackSeq sid s st = st\<lparr>acks := acks st @ [(sid, s)]\<rparr>"

text \<open>
  \<open>handleParsedMessage\<close> with its options \<open>processSeq\<close> and \<open>ackSeqMessage\<close>, the
  \<open>switch\<close> on the message type, and the loop of \<open>handleEventReplay\<close> with its
  variable \<open>latestProcessed\<close>.
\<close>

fun handleParsedMessage :: "string \<Rightarrow> message \<Rightarrow> bool \<Rightarrow> bool \<Rightarrow> ws_state \<Rightarrow> ws_state"
  and dispatch :: "string \<Rightarrow> body \<Rightarrow> ws_state \<Rightarrow> ws_state"
  and replay_loop :: "string \<Rightarrow> (int \<times> message) list \<Rightarrow> int option \<Rightarrow> ws_state
      \<Rightarrow> int option \<times> ws_state"
where
  "handleParsedMessage sid (Message None b) processSeq ackSeqMessage st = dispatch sid b st"
| "handleParsedMessage sid (Message (Some s) b) processSeq ackSeqMessage st =
     (if processSeq then
        (if s \<le> fst (getLastSeq sid st) then snd (getLastSeq sid st)
         else
           dispatch sid b
             (if ackSeqMessage then ackSeq sid s (setLastSeq sid s (snd (getLastSeq sid st)))
              else setLastSeq sid s (snd (getLastSeq sid st))))
      else dispatch sid b st)"
| "dispatch sid (Other payload) st = st\<lparr>handled := handled st @ [(sid, payload)]\<rparr>"
| "dispatch sid (EventReplay events) st =
     (case replay_loop sid events None st of
        (Some latestProcessed, st') \<Rightarrow> ackSeq sid latestProcessed st'
      | (None, st') \<Rightarrow> st')"
| "replay_loop sid [] latestProcessed st = (latestProcessed, st)"
| "replay_loop sid ((s, m) # events) latestProcessed st =
     (if s \<le> fst (getLastSeq sid st)
      then replay_loop sid events latestProcessed (snd (getLastSeq sid st))
      else replay_loop sid events (Some s)
             (handleParsedMessage sid m False False (setLastSeq sid s (snd (getLastSeq sid st)))))"

definition handleEventReplay :: "string \<Rightarrow> (int \<times> message) list \<Rightarrow> ws_state \<Rightarrow> ws_state" where
  "handleEventReplay sid events st = dispatch sid (EventReplay events) st"

text \<open>The cursor of a session, as the next message will see it.\<close>

definition cursor :: "string \<Rightarrow> ws_state \<Rightarrow> int" where
  "cursor sid st = fst (getLastSeq sid st)"

text \<open>The cache holds normalized values only.\<close>

definition cursor_ok :: "string \<Rightarrow> ws_state \<Rightarrow> bool" where
  "cursor_ok sid st = (case lastSeqBySession st sid of None \<Rightarrow> True | Some c \<Rightarrow> 0 \<le> c)"

text \<open>
  The filter in the words of the claim: an entry is handled only if its \<open>seq\<close> is above
  the cursor, and handling it moves the cursor to that \<open>seq\<close>.
\<close>

fun above_cursor :: "int \<Rightarrow> (int \<times> 'a) list \<Rightarrow> (int \<times> 'a) list" where
  "above_cursor c [] = []"
| "above_cursor c ((s, x) # es) =
     (if s \<le> c then above_cursor c es else (s, x) # above_cursor s es)"

text \<open>The \<open>seq\<close> of the last entry handled, or the cursor when none was.\<close>

definition last_seq :: "int \<Rightarrow> (int \<times> 'a) list \<Rightarrow> int" where
  "last_seq c es = (if es = [] then c else fst (last es))"

text \<open>The messages of one socket, each through \<open>handleMessage\<close>, in the order received.\<close>

definition receive_all :: "string \<Rightarrow> message list \<Rightarrow> ws_state \<Rightarrow> ws_state" where
  "receive_all sid ms st = foldl (\<lambda>st' m. handleParsedMessage sid m True True st') st ms"

definition plain_events :: "(int \<times> int option \<times> string) list \<Rightarrow> (int \<times> message) list" where
  "plain_events es = map (\<lambda>(s, inner, payload). (s, Message inner (Other payload))) es"

definition example_ws_state :: ws_state where
  "example_ws_state =
     \<lparr>lastSeqBySession = Map.empty,
      localStorage = [''companion:last-seq:s1'' \<mapsto> Number_text 5],
      storage_throws = False, handled = [], acks = []\<rparr>"

section \<open>plugins/manager.ts\<close>

subsection \<open>Events, results and plugin definitions\<close>

text \<open>
  Of an event the manager reads \<open>name\<close> and \<open>meta.sessionId\<close>. Field names that clash
  with a constant or with another record carry a prefix: \<open>insight_id\<close> and
  \<open>insight_message\<close> are \<open>id\<close> and \<open>message\<close> of an insight, \<open>decision_message\<close> is
  \<open>message\<close> of a decision, \<open>pid\<close> is \<open>id\<close> of a plugin definition.
\<close>

record plugin_event =
  name :: string
  event_sessionId :: "string option"

record insight =
  insight_id :: string
  plugin_id :: string
  title :: string
  insight_message :: string
  level :: string
  timestamp :: int
  event_name :: string
  session_id :: "string option"

record decision =
  behavior :: string
  decision_message :: "string option"
  pluginId :: string

record mutation =
  content :: string
  mutation_pluginId :: string

text \<open>\<open>PluginEventResult\<close>: what a handler may return.\<close>

record plugin_event_result =
  result_insights :: "insight list option"
  result_permissionDecision :: "decision option"
  result_userMessageMutation :: "mutation option"

text \<open>
  What calling \<open>plugin.onEvent(event, config)\<close> does: it returns a result or nothing
  (at once or through a promise that settles in time), it throws before returning, its
  promise rejects, or its promise is still pending when the timer fires.
\<close>

datatype handler_behaviour =
    Returns "plugin_event_result option"
  | ThrowsSync string
  | Rejects string
  | Hangs

datatype fail_policy = Continue | Abort_current_action

type_synonym config = "string json"

record plugin_definition =
  pid :: string                                       \<comment> \<open>the field \<open>id\<close>\<close>
  events :: "string list"
  priority :: int
  blocking :: bool
  timeoutMs :: "nat option"
  failPolicy :: "fail_policy option"
  capabilities :: "string list"
  defaultEnabled :: bool
  defaultConfig :: config
  validateConfig :: "(config \<Rightarrow> string + config) option"    \<comment> \<open>\<open>Inl\<close>: it throws\<close>
  onEvent :: "plugin_event \<Rightarrow> config \<Rightarrow> handler_behaviour"

text \<open>
  Modelled from the spec: state-store.ts is not among the sources. The persisted plugin
  state is \<open>{enabled: id\<rightarrow>bool, config: id\<rightarrow>any, grants: id\<rightarrow>capability\<rightarrow>bool}\<close>;
  \<open>update\<close> applies a change to it. An entry of \<open>enabled\<close> that is not a boolean counts
  as absent.
\<close>

record plugin_state =
  enabled :: "string \<rightharpoonup> bool"
  config :: "string \<rightharpoonup> config"
  grants :: "string \<Rightarrow> string \<rightharpoonup> bool"

text \<open>
  The manager: the map \<open>definitions\<close> in insertion order, the state store, the set
  \<open>warnedInvalidConfig\<close>, and the plugin ids that \<open>console.warn\<close> was called for.
\<close>

record plugin_manager =
  definitions :: "plugin_definition list"
  stateStore :: plugin_state
  warnedInvalidConfig :: "string set"
  warnings :: "string list"

definition DEFAULT_TIMEOUT_MS :: nat where
  "DEFAULT_TIMEOUT_MS = 3000"

definition toPluginErrorInsight :: "string \<Rightarrow> plugin_event \<Rightarrow> int \<Rightarrow> string \<Rightarrow> insight" where
  "toPluginErrorInsight plugin_ident event t err =
     \<lparr>insight_id = plugin_ident @ ''-'' @ show_int t @ ''-error'',
      plugin_id = plugin_ident,
      title = ''Plugin error'',
      insight_message = err,
      level = ''error'',
      timestamp = t,
      event_name = name event,
      session_id = event_sessionId event\<rparr>"

text \<open>
  \<open>runWithTimeout\<close> on the handler's promise: the value, the rejection, or the timeout
  error. A handler that throws before returning gives the same error to the \<open>try\<close>
  block of a blocking plugin.
\<close>

definition runWithTimeout :: "handler_behaviour \<Rightarrow> nat \<Rightarrow> string + plugin_event_result option" where
  "runWithTimeout b ms =
     (case b of
        Returns r \<Rightarrow> Inr r
      | ThrowsSync e \<Rightarrow> Inl e
      | Rejects e \<Rightarrow> Inl e
      | Hangs \<Rightarrow> Inl (''Plugin timeout after '' @ show_nat ms @ ''ms''))"

text \<open>\<open>definitions.set(plugin.id, plugin)\<close>: a known id keeps its place in the map.\<close>

fun map_set :: "plugin_definition \<Rightarrow> plugin_definition list \<Rightarrow> plugin_definition list" where
  "map_set p [] = [p]"
| "map_set p (q # qs) = (if pid q = pid p then p # qs else q # map_set p qs)"

definition register :: "plugin_definition \<Rightarrow> plugin_manager \<Rightarrow> plugin_manager" where
  "register plugin m = m\<lparr>definitions := map_set plugin (definitions m)\<rparr>"

subsection \<open>resolveConfig\<close>

text \<open>\<open>stateConfig ?? plugin.defaultConfig\<close>: \<open>None\<close> is \<open>undefined\<close>.\<close>

definition nullish_or :: "config option \<Rightarrow> config \<Rightarrow> config" where
  "nullish_or stateConfig dflt =
     (case stateConfig of None \<Rightarrow> dflt | Some JNull \<Rightarrow> dflt | Some c \<Rightarrow> c)"

definition resolveConfig ::
  "plugin_definition \<Rightarrow> config option \<Rightarrow> bool \<Rightarrow> plugin_manager \<Rightarrow> config \<times> plugin_manager" where
  "resolveConfig plugin stateConfig persistDefaultOnInvalid m =
     (let rawConfig = nullish_or stateConfig (defaultConfig plugin)
      in case validateConfig plugin of
           None \<Rightarrow> (rawConfig, m)
         | Some validate \<Rightarrow>
             (case validate rawConfig of
                Inr c \<Rightarrow> (c, m)
              | Inl err \<Rightarrow>
                  (let m1 = (if pid plugin \<notin> warnedInvalidConfig m
                             then m\<lparr>warnings := warnings m @ [pid plugin],
                                    warnedInvalidConfig := insert (pid plugin) (warnedInvalidConfig m)\<rparr>
                             else m);
                       m2 = (if persistDefaultOnInvalid \<and> stateConfig \<noteq> None
                             then m1\<lparr>stateStore := (stateStore m1)\<lparr>config :=
                                     (config (stateStore m1))(pid plugin \<mapsto> defaultConfig plugin)\<rparr>\<rparr>
                             else m1)
                   in (defaultConfig plugin, m2))))"

definition is_enabled :: "plugin_state \<Rightarrow> plugin_definition \<Rightarrow> bool" where
  "is_enabled state plugin =
     (case enabled state (pid plugin) of Some saved \<Rightarrow> saved | None \<Rightarrow> defaultEnabled plugin)"

text \<open>\<open>list()\<close> resolves the configuration of every registered plugin, in order.\<close>

fun list_configs :: "plugin_state \<Rightarrow> plugin_definition list \<Rightarrow> plugin_manager \<Rightarrow> plugin_manager" where
  "list_configs state [] m = m"
| "list_configs state (p # ps) m =
     list_configs state ps (snd (resolveConfig p (config state (pid p)) True m))"

definition list_plugins :: "plugin_manager \<Rightarrow> plugin_manager" where
  "list_plugins m = list_configs (stateStore m) (definitions m) m"

subsection \<open>emit\<close>

text \<open>
  The local variables of \<open>emit\<close>, the manager it changes through \<open>resolveConfig\<close>, and
  two traces: the plugins whose handler was called, in order, and the insights that the
  non-blocking handlers hand to \<open>options.onInsight\<close> once they settle.
\<close>

record emit_vars =
  insights :: "insight list"
  permissionDecision :: "decision option"
  aborted :: bool
  manager_now :: plugin_manager
  invoked :: "plugin_definition list"
  onInsight :: "insight list"

definition nonempty_insights :: "plugin_event_result \<Rightarrow> insight list" where
  "nonempty_insights r = (case result_insights r of None \<Rightarrow> [] | Some is \<Rightarrow> is)"

text \<open>The \<open>then\<close> and \<open>catch\<close> callbacks of a non-blocking run.\<close>

definition nonblocking_insights ::
  "plugin_definition \<Rightarrow> plugin_event \<Rightarrow> int \<Rightarrow> string + plugin_event_result option \<Rightarrow> insight list" where
  "nonblocking_insights plugin event t outcome =
     (case outcome of
        Inr None \<Rightarrow> []
      | Inr (Some r) \<Rightarrow> nonempty_insights r
      | Inl err \<Rightarrow> [toPluginErrorInsight (pid plugin) event t err])"

fun dispatch_loop ::
  "plugin_event \<Rightarrow> plugin_state \<Rightarrow> int \<Rightarrow> plugin_definition list \<Rightarrow> emit_vars
     \<Rightarrow> string option \<times> emit_vars" where
  "dispatch_loop event state t [] v = (None, v)"
| "dispatch_loop event state t (plugin # rest) v =
     (if \<not> is_enabled state plugin then dispatch_loop event state t rest v
      else
        (let (cfg, m') = resolveConfig plugin (config state (pid plugin)) True (manager_now v);
             ms = (case timeoutMs plugin of None \<Rightarrow> DEFAULT_TIMEOUT_MS | Some n \<Rightarrow> n);
             policy = (case failPolicy plugin of None \<Rightarrow> Continue | Some fp \<Rightarrow> fp);
             v1 = v\<lparr>manager_now := m', invoked := invoked v @ [plugin]\<rparr>
         in if \<not> blocking plugin then
              (case onEvent plugin event cfg of
                 ThrowsSync e \<Rightarrow> (Some e, v1)
               | b \<Rightarrow>
                   dispatch_loop event state t rest
                     (v1\<lparr>onInsight := onInsight v1
                          @ nonblocking_insights plugin event t (runWithTimeout b ms)\<rparr>))
            else
              (case runWithTimeout (onEvent plugin event cfg) ms of
                 Inl err \<Rightarrow>
                   (let v2 = v1\<lparr>insights := insights v1
                                  @ [toPluginErrorInsight (pid plugin) event t err]\<rparr>
                    in if policy = Abort_current_action then (None, v2\<lparr>aborted := True\<rparr>)
                       else dispatch_loop event state t rest v2)
               | Inr None \<Rightarrow> dispatch_loop event state t rest v1
               | Inr (Some r) \<Rightarrow>
                   dispatch_loop event state t rest
                     (v1\<lparr>insights := insights v1 @ nonempty_insights r,
                         permissionDecision :=
                           (if permissionDecision v1 = None \<and> result_permissionDecision r \<noteq> None
                            then result_permissionDecision r else permissionDecision v1)\<rparr>))))"

text \<open>The candidates: the plugins that list the event's name, by priority, highest first
  (\<open>Array.prototype.sort\<close> is stable).\<close>

definition candidates :: "plugin_event \<Rightarrow> plugin_definition list \<Rightarrow> plugin_definition list" where
  "candidates event defs =
     sort_key (\<lambda>p. - priority p) (filter (\<lambda>p. name event \<in> set (events p)) defs)"

text \<open>
  \<open>emit\<close>, with \<open>t\<close> for what \<open>Date.now()\<close> returns. The first component is the error of a rejected promise
  (a non-blocking handler that throws before returning is called outside any \<open>try\<close>);
  otherwise \<open>insights\<close>, \<open>permissionDecision\<close> and \<open>aborted\<close> are the result.
\<close>

definition emit :: "plugin_event \<Rightarrow> int \<Rightarrow> plugin_manager \<Rightarrow> string option \<times> emit_vars" where
  "emit event t m =
     dispatch_loop event (stateStore m) t (candidates event (definitions m))
       \<lparr>insights = [], permissionDecision = None, aborted = False, manager_now = m,
        invoked = [], onInsight = []\<rparr>"

subsection \<open>What one plugin contributes\<close>

text \<open>
  The configuration that \<open>resolveConfig\<close> returns does not depend on the manager, so
  the outcome of a plugin's run is a function of the event, the state and the plugin.
\<close>

definition resolved_config :: "plugin_state \<Rightarrow> plugin_definition \<Rightarrow> config" where
  "resolved_config state plugin =
     (let rawConfig = nullish_or (config state (pid plugin)) (defaultConfig plugin)
      in case validateConfig plugin of
           None \<Rightarrow> rawConfig
         | Some validate \<Rightarrow>
             (case validate rawConfig of Inr c \<Rightarrow> c | Inl err \<Rightarrow> defaultConfig plugin))"

definition behaviour_of :: "plugin_event \<Rightarrow> plugin_state \<Rightarrow> plugin_definition \<Rightarrow> handler_behaviour" where
  "behaviour_of event state plugin = onEvent plugin event (resolved_config state plugin)"

definition plugin_outcome ::
  "plugin_event \<Rightarrow> plugin_state \<Rightarrow> plugin_definition \<Rightarrow> string + plugin_event_result option" where
  "plugin_outcome event state plugin =
     runWithTimeout (behaviour_of event state plugin)
       (case timeoutMs plugin of None \<Rightarrow> DEFAULT_TIMEOUT_MS | Some n \<Rightarrow> n)"

text \<open>A blocking invocation fails when its run throws, rejects or times out.\<close>

definition fails_with :: "plugin_event \<Rightarrow> plugin_state \<Rightarrow> plugin_definition \<Rightarrow> string option" where
  "fails_with event state plugin =
     (case plugin_outcome event state plugin of Inl err \<Rightarrow> Some err | Inr r \<Rightarrow> None)"

definition aborts :: "plugin_event \<Rightarrow> plugin_state \<Rightarrow> plugin_definition \<Rightarrow> bool" where
  "aborts event state plugin \<longleftrightarrow>
     blocking plugin \<and> fails_with event state plugin \<noteq> None
     \<and> failPolicy plugin = Some Abort_current_action"

text \<open>A non-blocking handler that throws before returning makes \<open>emit\<close> itself reject.\<close>

definition throws_unguarded :: "plugin_event \<Rightarrow> plugin_state \<Rightarrow> plugin_definition \<Rightarrow> string option" where
  "throws_unguarded event state plugin =
     (if blocking plugin then None
      else case behaviour_of event state plugin of ThrowsSync e \<Rightarrow> Some e | _ \<Rightarrow> None)"

text \<open>The decision and the insights that a blocking plugin's run returns.\<close>

definition decision_of :: "plugin_event \<Rightarrow> plugin_state \<Rightarrow> plugin_definition \<Rightarrow> decision option" where
  "decision_of event state plugin =
     (case plugin_outcome event state plugin of
        Inr (Some r) \<Rightarrow> result_permissionDecision r
      | _ \<Rightarrow> None)"

definition blocking_insights ::
  "plugin_event \<Rightarrow> plugin_state \<Rightarrow> int \<Rightarrow> plugin_definition \<Rightarrow> insight list" where
  "blocking_insights event state t plugin =
     (case plugin_outcome event state plugin of
        Inl err \<Rightarrow> [toPluginErrorInsight (pid plugin) event t err]
      | Inr None \<Rightarrow> []
      | Inr (Some r) \<Rightarrow> nonempty_insights r)"

definition callback_insights ::
  "plugin_event \<Rightarrow> plugin_state \<Rightarrow> int \<Rightarrow> plugin_definition \<Rightarrow> insight list" where
  "callback_insights event state t plugin =
     nonblocking_insights plugin event t (plugin_outcome event state plugin)"

text \<open>The first decision of a list of optional decisions.\<close>

fun first_some :: "'a option list \<Rightarrow> 'a option" where
  "first_some [] = None"
| "first_some (None # xs) = first_some xs"
| "first_some (Some x # xs) = Some x"

text \<open>
  The plugins that a dispatch over the candidates \<open>ps\<close> reaches: the enabled ones, up
  to and including the first that stops the loop.
\<close>

definition stops :: "plugin_event \<Rightarrow> plugin_state \<Rightarrow> plugin_definition \<Rightarrow> bool" where
  "stops event state plugin \<longleftrightarrow>
     aborts event state plugin \<or> throws_unguarded event state plugin \<noteq> None"

fun dispatched :: "plugin_event \<Rightarrow> plugin_state \<Rightarrow> plugin_definition list \<Rightarrow> plugin_definition list" where
  "dispatched event state [] = []"
| "dispatched event state (p # ps) =
     (if \<not> is_enabled state p then dispatched event state ps
      else if stops event state p then [p]
      else p # dispatched event state ps)"

text \<open>The variables once an enabled plugin's config is resolved and its handler called.\<close>

definition entered :: "plugin_state \<Rightarrow> plugin_definition \<Rightarrow> emit_vars \<Rightarrow> emit_vars" where
  "entered state p v =
     v\<lparr>manager_now := snd (resolveConfig p (config state (pid p)) True (manager_now v)),
       invoked := invoked v @ [p]\<rparr>"

text \<open>No plugin was warned about twice, and every warning is remembered in the set.\<close>

definition one_shot :: "plugin_manager \<Rightarrow> bool" where
  "one_shot m \<longleftrightarrow> distinct (warnings m) \<and> set (warnings m) \<subseteq> warnedInvalidConfig m"

subsection \<open>Concrete plugins and managers\<close>

text \<open>A validator that accepts objects only, and a manager whose store holds a number for it.\<close>

definition objects_only :: "config \<Rightarrow> string + config" where
  "objects_only c = (case c of JObj kvs \<Rightarrow> Inr c | _ \<Rightarrow> Inl ''config must be an object'')"

definition strict_plugin :: plugin_definition where
  "strict_plugin =
     \<lparr>pid = ''strict-plugin'', events = [''session.created''], priority = 1, blocking = True,
      timeoutMs = None, failPolicy = None, capabilities = [], defaultEnabled = True,
      defaultConfig = JObj [], validateConfig = Some objects_only,
      onEvent = (\<lambda>event cfg. Returns None)\<rparr>"

definition empty_state :: plugin_state where
  "empty_state = \<lparr>enabled = Map.empty, config = Map.empty, grants = (\<lambda>p. Map.empty)\<rparr>"

definition strict_manager :: plugin_manager where
  "strict_manager =
     \<lparr>definitions = [strict_plugin],
      stateStore = empty_state\<lparr>config := [''strict-plugin'' \<mapsto> JNum 5]\<rparr>,
      warnedInvalidConfig = {}, warnings = []\<rparr>"

text \<open>The same manager with \<open>null\<close> persisted, and the plugin with a default that its own
  validator rejects.\<close>

definition null_manager :: plugin_manager where
  "null_manager =
     strict_manager\<lparr>stateStore := empty_state\<lparr>config := [''strict-plugin'' \<mapsto> JNull]\<rparr>\<rparr>"

definition broken_default_plugin :: plugin_definition where
  "broken_default_plugin = strict_plugin\<lparr>defaultConfig := JNum 0\<rparr>"

text \<open>The plugin of the test "applies capability grants to block privileged outputs".\<close>

definition deny_decision :: decision where
  "deny_decision = \<lparr>behavior = ''deny'', decision_message = Some ''blocked'', pluginId = ''gated-plugin''\<rparr>"

definition gated_plugin :: plugin_definition where
  "gated_plugin =
     \<lparr>pid = ''gated-plugin'', events = [''permission.requested''], priority = 10, blocking = True,
      timeoutMs = None, failPolicy = None, capabilities = [''permission:auto-decide''],
      defaultEnabled = True, defaultConfig = JObj [], validateConfig = None,
      onEvent = (\<lambda>event cfg. Returns (Some \<lparr>result_insights = None,
        result_permissionDecision = Some deny_decision, result_userMessageMutation = None\<rparr>))\<rparr>"

definition gated_manager :: plugin_manager where
  "gated_manager =
     \<lparr>definitions = [gated_plugin],
      stateStore = empty_state\<lparr>grants :=
        (\<lambda>p. if p = ''gated-plugin'' then [''permission:auto-decide'' \<mapsto> False] else Map.empty)\<rparr>,
      warnedInvalidConfig = {}, warnings = []\<rparr>"

definition permission_requested :: plugin_event where
  "permission_requested = \<lparr>name = ''permission.requested'', event_sessionId = Some ''s1''\<rparr>"

text \<open>A second deciding plugin of higher priority, and a non-blocking one that returns a
  decision and an insight.\<close>

definition allow_decision :: decision where
  "allow_decision = \<lparr>behavior = ''allow'', decision_message = None, pluginId = ''allow-plugin''\<rparr>"

definition allow_plugin :: plugin_definition where
  "allow_plugin =
     gated_plugin\<lparr>pid := ''allow-plugin'', priority := 1000, capabilities := [],
       onEvent := (\<lambda>event cfg. Returns (Some \<lparr>result_insights = None,
         result_permissionDecision = Some allow_decision, result_userMessageMutation = None\<rparr>))\<rparr>"

definition note_insight :: insight where
  "note_insight =
     \<lparr>insight_id = ''n1'', plugin_id = ''observer'', title = ''Seen'', insight_message = ''request seen'',
      level = ''info'', timestamp = 0, event_name = ''permission.requested'', session_id = Some ''s1''\<rparr>"

definition observer_plugin :: plugin_definition where
  "observer_plugin =
     gated_plugin\<lparr>pid := ''observer'', priority := 5000, blocking := False, capabilities := [],
       onEvent := (\<lambda>event cfg. Returns (Some \<lparr>result_insights = Some [note_insight],
         result_permissionDecision = Some deny_decision,
         result_userMessageMutation = Some \<lparr>content = ''changed'', mutation_pluginId = ''observer''\<rparr>\<rparr>))\<rparr>"

definition deciding_manager :: plugin_manager where
  "deciding_manager =
     \<lparr>definitions = [gated_plugin, observer_plugin, allow_plugin], stateStore = empty_state,
      warnedInvalidConfig = {}, warnings = []\<rparr>"

text \<open>The plugin of the test "counts aborted invocations", one that fails and continues,
  and a manager with both policies.\<close>

definition aborting_plugin :: plugin_definition where
  "aborting_plugin =
     \<lparr>pid = ''aborting-plugin'', events = [''session.created''], priority = 100, blocking = True,
      timeoutMs = None, failPolicy = Some Abort_current_action, capabilities = [],
      defaultEnabled = True, defaultConfig = JObj [], validateConfig = None,
      onEvent = (\<lambda>event cfg. ThrowsSync ''abort'')\<rparr>"

definition flaky_plugin :: plugin_definition where
  "flaky_plugin =
     aborting_plugin\<lparr>pid := ''flaky-plugin'', priority := 200, failPolicy := None,
       onEvent := (\<lambda>event cfg. Hangs)\<rparr>"

definition session_created :: plugin_event where
  "session_created = \<lparr>name = ''session.created'', event_sessionId = Some ''s1''\<rparr>"

definition failing_manager :: plugin_manager where
  "failing_manager =
     \<lparr>definitions = [strict_plugin, aborting_plugin, flaky_plugin], stateStore = empty_state,
      warnedInvalidConfig = {}, warnings = []\<rparr>"

text \<open>A plugin whose promise rejects, ahead of the other three.\<close>

definition rejecting_plugin :: plugin_definition where
  "rejecting_plugin =
     aborting_plugin\<lparr>pid := ''rejecting-plugin'', priority := 300, failPolicy := Some Continue,
       onEvent := (\<lambda>event cfg. Rejects ''nope'')\<rparr>"

definition rejecting_manager :: plugin_manager where
  "rejecting_manager =
     \<lparr>definitions = [strict_plugin, aborting_plugin, rejecting_plugin, flaky_plugin],
      stateStore = empty_state, warnedInvalidConfig = {}, warnings = []\<rparr>"

section \<open>Properties of auth-manager.ts\<close>

lemma utf8_of_code_point_nonempty: "utf8_of_code_point c \<noteq> []"
  by (simp add: utf8_of_code_point_def)

lemma Buffer_from_empty_iff: "Buffer_from s = [] \<longleftrightarrow> s = []"
  by (induction s rule: Buffer_from.induct) (simp_all add: utf8_of_code_point_nonempty)

lemma to_hex_length: "length (to_hex bs) = 2 * length bs"
  by (induction bs) (simp_all add: to_hex_def)

lemma trim_env_nonempty_token:
  "truthy_string (env_COMPANION_AUTH_TOKEN st) \<and> trim (the (env_COMPANION_AUTH_TOKEN st)) \<noteq> []
   \<Longrightarrow> fst (getToken st) \<noteq> []"
  by (simp add: getToken_def Let_def)

lemma read_persisted_token_long: "read_persisted_token f = Some t \<Longrightarrow> 32 \<le> length t"
  by (auto simp: read_persisted_token_def split: json_file.splits sum.splits option.splits
      json.splits if_splits)

lemma getToken_nonempty: "fst (getToken st) \<noteq> []"
proof (cases "truthy_string (env_COMPANION_AUTH_TOKEN st)
    \<and> trim (the (env_COMPANION_AUTH_TOKEN st)) \<noteq> []")
  case True
  then show ?thesis by (rule trim_env_nonempty_token)
next
  case env: False
  show ?thesis
  proof (cases "truthy_string (cachedToken st)")
    case True
    with env show ?thesis
      by (auto simp: getToken_def truthy_string_def split: option.splits)
  next
    case cache: False
    show ?thesis
    proof (cases "read_persisted_token (AUTH_FILE st)")
      case None
      have "length (to_hex (randomBytes st TOKEN_BYTES)) = 64"
        by (simp add: to_hex_length randomBytes_def TOKEN_BYTES_def)
      then have "to_hex (randomBytes st TOKEN_BYTES) \<noteq> []" by auto
      with env cache None show ?thesis
        by (simp add: getToken_def Let_def)
    next
      case (Some t)
      from read_persisted_token_long [OF Some] have "t \<noteq> []" by auto
      with env cache Some show ?thesis
        by (simp add: getToken_def)
    qed
  qed
qed

text \<open>
  C10, as stated, fails for a candidate that is truthy and not a string: for a number
  other than 0, \<open>Buffer.from\<close> throws a TypeError that nothing catches.
\<close>

theorem verifyToken_number_counterexample:
  "truthy Nonzero_number
   \<and> fst (verifyToken Nonzero_number example_auth_state) = Inl TypeError"
  by (simp add: verifyToken_def split_beta Let_def)

text \<open>
  C10, amended. For a candidate that is a string, \<open>null\<close> or \<open>undefined\<close>, and for every
  falsy candidate, \<open>verifyToken\<close> returns a boolean and does not raise: false for
  \<open>null\<close>, \<open>undefined\<close>, the empty string, \<open>0\<close> and \<open>false\<close>; false for a string whose
  byte length differs from the token's; true exactly when the string's bytes are the
  bytes of the token that \<open>getToken\<close> returns. For a truthy candidate that is not a
  string it raises what \<open>Buffer.from\<close> raises, a TypeError for a number and for
  \<open>true\<close>; when \<open>Buffer.from\<close> builds bytes from an array or an object, the result is
  whether those bytes are the token's.
\<close>

theorem verifyToken_by_candidate:
  "fst (verifyToken (Text c) st) = Inr (Buffer_from c = Buffer_from (fst (getToken st)))
   \<and> fst (verifyToken Nullish st) = Inr False
   \<and> fst (verifyToken (Text []) st) = Inr False
   \<and> fst (verifyToken Zero_number st) = Inr False
   \<and> fst (verifyToken (Boolean False) st) = Inr False
   \<and> (length (Buffer_from c) \<noteq> length (Buffer_from (fst (getToken st)))
        \<longrightarrow> fst (verifyToken (Text c) st) = Inr False)
   \<and> fst (verifyToken Nonzero_number st) = Inl TypeError
   \<and> fst (verifyToken (Boolean True) st) = Inl TypeError
   \<and> fst (verifyToken (Structured (Inl e)) st) = Inl e
   \<and> fst (verifyToken (Structured (Inr bs)) st) = Inr (bs = Buffer_from (fst (getToken st)))"
proof -
  have nonempty: "Buffer_from (fst (getToken st)) \<noteq> []"
    using getToken_nonempty [of st] by (simp add: Buffer_from_empty_iff)
  have str: "fst (verifyToken (Text c) st) = Inr (Buffer_from c = Buffer_from (fst (getToken st)))"
  proof (cases "c = []")
    case True
    with nonempty show ?thesis by (auto simp: verifyToken_def Let_def)
  next
    case False
    then show ?thesis
      by (auto simp: verifyToken_def timingSafeEqual_def split_beta Let_def)
  qed
  have len: "fst (verifyToken (Text c) st) = Inr False"
    if "length (Buffer_from c) \<noteq> length (Buffer_from (fst (getToken st)))"
    using that str by auto
  have falsy: "fst (verifyToken Nullish st) = Inr False"
    "fst (verifyToken (Text []) st) = Inr False"
    "fst (verifyToken Zero_number st) = Inr False"
    "fst (verifyToken (Boolean False) st) = Inr False"
    by (simp_all add: verifyToken_def)
  have raises: "fst (verifyToken Nonzero_number st) = Inl TypeError"
    "fst (verifyToken (Boolean True) st) = Inl TypeError"
    "fst (verifyToken (Structured (Inl e)) st) = Inl e"
    by (simp_all add: verifyToken_def split_beta Let_def)
  have structured: "fst (verifyToken (Structured (Inr bs)) st)
      = Inr (bs = Buffer_from (fst (getToken st)))"
    by (auto simp: verifyToken_def timingSafeEqual_def split_beta Let_def)
  from str len falsy raises structured show ?thesis by blast
qed

theorem verifyToken_by_candidate_witness:
  "length (Buffer_from [0x61, 0x62]) \<noteq> length (Buffer_from (fst (getToken example_auth_state)))
   \<and> fst (verifyToken (Text [0x61, 0x62]) example_auth_state) = Inr False
   \<and> fst (verifyToken (Text [0x61]) example_auth_state) = Inr True
   \<and> fst (verifyToken (Text [0x62]) example_auth_state) = Inr False
   \<and> fst (verifyToken (Structured (Inr [0x61])) example_auth_state) = Inr True"
proof -
  have tok: "fst (getToken example_auth_state) = [0x61]"
    by (simp add: example_auth_state_def getToken_def truthy_string_def trim_def
        is_js_whitespace_def Let_def)
  have len: "length (Buffer_from [0x61, 0x62])
      \<noteq> length (Buffer_from (fst (getToken example_auth_state)))"
    by (simp add: tok is_high_surrogate_def is_low_surrogate_def utf8_of_code_point_def)
  from verifyToken_by_candidate [where c = "[0x61, 0x62]" and st = example_auth_state
      and bs = "[0x61]"]
    verifyToken_by_candidate [where c = "[0x61]" and st = example_auth_state]
    verifyToken_by_candidate [where c = "[0x62]" and st = example_auth_state] len
  show ?thesis
    by (simp add: tok is_high_surrogate_def is_low_surrogate_def utf8_of_code_point_def)
qed

section \<open>Properties of linear-project-manager.ts\<close>

lemma find_update_first:
  "(\<And>x. P x \<Longrightarrow> P (f x)) \<Longrightarrow> find P (update_first P f xs) = map_option f (find P xs)"
  by (induction xs) auto

lemma has_root_assign_team: "has_root key m \<Longrightarrow> has_root key (assign_team d t m)"
  by (simp add: has_root_def assign_team_def update_conv')

lemma assign_team_fields:
  "map_of (assign_team d t m) ''teamId'' = Some (JStr (teamId d))"
  "map_of (assign_team d t m) ''teamKey'' = Some (JStr (teamKey d))"
  "map_of (assign_team d t m) ''teamName'' = Some (JStr (teamName d))"
  "map_of (assign_team d t m) ''updatedAt'' = Some (JNum t)"
  by (simp_all add: assign_team_def update_conv')

lemma assign_team_other: "k \<notin> team_fields \<Longrightarrow> map_of (assign_team d t m) k = map_of m k"
  by (simp add: assign_team_def update_conv' team_fields_def)

lemma new_mapping_fields:
  "has_root key (new_mapping key d t)"
  "map_of (new_mapping key d t) ''teamId'' = Some (JStr (teamId d))"
  "map_of (new_mapping key d t) ''teamKey'' = Some (JStr (teamKey d))"
  "map_of (new_mapping key d t) ''teamName'' = Some (JStr (teamName d))"
  by (simp_all add: new_mapping_def has_root_def)

lemma find_append_new: "find P xs = None \<Longrightarrow> P y \<Longrightarrow> find P (xs @ [y]) = Some y"
  by (induction xs) (auto split: if_splits)

lemma ensureLoaded_loaded: "loaded (ensureLoaded st)"
  by (auto simp: ensureLoaded_def split: json_file.splits json.splits)

lemma ensureLoaded_idem: "loaded st \<Longrightarrow> ensureLoaded st = st"
  by (simp add: ensureLoaded_def)

lemma persist_mappings: "persist st = Inr st' \<Longrightarrow> mappings st' = mappings st \<and> loaded st' = loaded st"
  by (auto simp: persist_def split: if_splits)

lemma upsertMapping_state:
  "loaded (snd (upsertMapping r d st)) \<and> mappings (snd (upsertMapping r d st)) = upsert_memory r d st"
  by (auto simp: upsertMapping_def upsert_memory_def Let_def ensureLoaded_loaded
      dest: persist_mappings split: option.splits sum.splits)

lemma find_upsert_memory:
  "find (has_root (normalizeRoot r)) (upsert_memory r d st) =
     Some (case find (has_root (normalizeRoot r)) (mappings (ensureLoaded st)) of
             Some existing \<Rightarrow> assign_team d (clock (ensureLoaded st)) existing
           | None \<Rightarrow> new_mapping (normalizeRoot r) d (clock (ensureLoaded st)))"
  by (auto simp: upsert_memory_def Let_def find_update_first has_root_assign_team
      find_append_new new_mapping_fields split: option.splits)

lemma map_filter_all_None: "list_all (\<lambda>x. f x = None) xs \<Longrightarrow> List.map_filter f xs = []"
  by (induction xs) simp_all

text \<open>
  C7. After \<open>upsertMapping(r, d)\<close>, \<open>getMapping(r')\<close> returns a mapping whose team
  fields are those of \<open>d\<close>, for every \<open>r'\<close> with the same normalized key as \<open>r\<close>.
  When the upsert finds an existing mapping, that object keeps \<open>createdAt\<close> and every
  property other than \<open>teamId\<close>, \<open>teamKey\<close>, \<open>teamName\<close> and \<open>updatedAt\<close>, and no other
  mapping of the list changes. Loading an unreadable or corrupt file, a file that is not
  an array, or an array without a valid entry gives the empty list.
\<close>

theorem upsertMapping_getMapping:
  "(normalizeRoot r' = normalizeRoot r \<longrightarrow>
      (\<exists>m. fst (getMapping r' (snd (upsertMapping r d st))) = Some m
         \<and> map_of m ''teamId'' = Some (JStr (teamId d))
         \<and> map_of m ''teamKey'' = Some (JStr (teamKey d))
         \<and> map_of m ''teamName'' = Some (JStr (teamName d))))
   \<and> (find (has_root (normalizeRoot r)) (mappings (ensureLoaded st)) = Some old \<longrightarrow>
        (\<exists>new. fst (getMapping r (snd (upsertMapping r d st))) = Some new
           \<and> map_of new ''createdAt'' = map_of old ''createdAt''
           \<and> (\<forall>k. k \<notin> team_fields \<longrightarrow> map_of new k = map_of old k)
           \<and> mappings (snd (upsertMapping r d st))
               = update_first (has_root (normalizeRoot r)) (\<lambda>_. new) (mappings (ensureLoaded st))
           \<and> length (mappings (snd (upsertMapping r d st))) = length (mappings (ensureLoaded st))))
   \<and> (\<not> loaded st0 \<and> invalid_projects_file (projects_file st0) \<longrightarrow> fst (listMappings st0) = [])"
proof (intro conjI impI)
  assume eq: "normalizeRoot r' = normalizeRoot r"
  let ?st' = "snd (upsertMapping r d st)"
  have "fst (getMapping r' ?st') = find (has_root (normalizeRoot r)) (upsert_memory r d st)"
    using upsertMapping_state [of r d st]
    by (simp add: getMapping_def Let_def ensureLoaded_idem eq)
  then show "\<exists>m. fst (getMapping r' ?st') = Some m
         \<and> map_of m ''teamId'' = Some (JStr (teamId d))
         \<and> map_of m ''teamKey'' = Some (JStr (teamKey d))
         \<and> map_of m ''teamName'' = Some (JStr (teamName d))"
    by (simp add: find_upsert_memory assign_team_fields new_mapping_fields split: option.splits)
next
  assume old: "find (has_root (normalizeRoot r)) (mappings (ensureLoaded st)) = Some old"
  let ?st' = "snd (upsertMapping r d st)"
  let ?new = "assign_team d (clock (ensureLoaded st)) old"
  have get: "fst (getMapping r ?st') = Some ?new"
    using upsertMapping_state [of r d st]
    by (simp add: getMapping_def Let_def ensureLoaded_idem find_upsert_memory old)
  have created: "''createdAt'' \<notin> team_fields"
    by (simp add: team_fields_def)
  have upd: "update_first P f xs = update_first P (\<lambda>_. f y) xs" if "find P xs = Some y"
    for P and f :: "js_object \<Rightarrow> js_object" and xs y
    using that by (induction xs) (auto split: if_splits)
  have mem: "mappings ?st' = update_first (has_root (normalizeRoot r)) (\<lambda>_. ?new) (mappings (ensureLoaded st))"
    using upsertMapping_state [of r d st] upd [OF old, of "assign_team d (clock (ensureLoaded st))"]
    by (simp add: upsert_memory_def Let_def old)
  have len: "length (update_first P f xs) = length xs" for P and f :: "js_object \<Rightarrow> js_object" and xs
    by (induction xs) auto
  show "\<exists>new. fst (getMapping r ?st') = Some new
           \<and> map_of new ''createdAt'' = map_of old ''createdAt''
           \<and> (\<forall>k. k \<notin> team_fields \<longrightarrow> map_of new k = map_of old k)
           \<and> mappings ?st' = update_first (has_root (normalizeRoot r)) (\<lambda>_. new) (mappings (ensureLoaded st))
           \<and> length (mappings ?st') = length (mappings (ensureLoaded st))"
    using get mem created by (auto simp: assign_team_other len)
next
  assume "\<not> loaded st0 \<and> invalid_projects_file (projects_file st0)"
  then show "fst (listMappings st0) = []"
    by (auto simp: listMappings_def ensureLoaded_def invalid_projects_file_def Let_def
        map_filter_all_None split: json_file.splits json.splits)
qed

theorem upsertMapping_getMapping_witness:
  "normalizeRoot ''/repo/'' = normalizeRoot ''/repo//''
   \<and> find (has_root (normalizeRoot ''/repo//'')) (mappings (ensureLoaded example_projects_state))
       = Some [(''repoRoot'', JStr ''/repo''), (''teamId'', JStr ''old''), (''createdAt'', JNum 1)]
   \<and> \<not> loaded example_bad_projects_state
   \<and> invalid_projects_file (projects_file example_bad_projects_state)
   \<and> (\<exists>m. fst (getMapping ''/repo/''
              (snd (upsertMapping ''/repo//'' \<lparr>teamId = ''T'', teamKey = ''ENG'', teamName = ''Eng''\<rparr>
                     example_projects_state))) = Some m
          \<and> map_of m ''teamId'' = Some (JStr ''T''))
   \<and> (\<exists>new. fst (getMapping ''/repo//''
              (snd (upsertMapping ''/repo//'' \<lparr>teamId = ''T'', teamKey = ''ENG'', teamName = ''Eng''\<rparr>
                     example_projects_state))) = Some new
          \<and> map_of new ''createdAt'' = Some (JNum 1))
   \<and> fst (listMappings example_bad_projects_state) = []"
proof -
  have h1: "normalizeRoot ''/repo/'' = normalizeRoot ''/repo//''"
    by (simp add: normalizeRoot_def)
  have h2: "find (has_root (normalizeRoot ''/repo//'')) (mappings (ensureLoaded example_projects_state))
       = Some [(''repoRoot'', JStr ''/repo''), (''teamId'', JStr ''old''), (''createdAt'', JNum 1)]"
    by (simp add: normalizeRoot_def example_projects_state_def ensureLoaded_def
        typeof_string_def has_root_def)
  have h3: "\<not> loaded example_bad_projects_state
      \<and> invalid_projects_file (projects_file example_bad_projects_state)"
    by (simp add: example_bad_projects_state_def invalid_projects_file_def)
  from upsertMapping_getMapping [of "''/repo/''" "''/repo//''"
      "\<lparr>teamId = ''T'', teamKey = ''ENG'', teamName = ''Eng''\<rparr>" example_projects_state
      "[(''repoRoot'', JStr ''/repo''), (''teamId'', JStr ''old''), (''createdAt'', JNum 1)]"
      example_bad_projects_state] h1 h2 h3
  show ?thesis by auto
qed

section \<open>Properties of the init script step\<close>

text \<open>
  C5. When the environment has an init script and the script exits with a non-zero
  code, the pipeline returns \<open>null\<close> and launches no session, the container tracked
  under the temporary id is removed, and the one error reported is
  \<open>Init script failed (exit N):\<close> followed by the output: all of it up to 2000
  characters, its first 500 and last 1500 characters around a marker beyond.
\<close>

theorem init_script_nonzero_exit_fatal:
  assumes script: "initScript = Some script" "trim_string script \<noteq> []"
    and exit: "outcome = Inr (exitCode, output)" "exitCode \<noteq> 0"
    and tracked: "containers (manager st) tempId = Some containerId"
    and res: "runSessionCreationPipeline initScript tempId sid outcome st = (result, st')"
  shows "result = None
    \<and> launched st' = launched st
    \<and> containers (manager st') tempId = None
    \<and> docker_rm (manager st') = docker_rm (manager st) @ [containerId]
    \<and> error_messages (reports st') = error_messages (reports st)
         @ [''Init script failed (exit '' @ show_int exitCode @ ''):'' @ [CHR 0x0A]
             @ (if length output > 2000
                then take 500 output @ [CHR 0x0A] @ ''...[truncated]...'' @ [CHR 0x0A]
                       @ drop (length output - 1500) output
                else output)]"
  using assms
  by (auto simp: runSessionCreationPipeline_def run_from_init_script_def init_script_step_def
      Let_def r_progress_def r_error_def removeContainer_def error_messages_def
      init_script_failed_message_def truncate_output_def slice_head_def slice_tail_def)

theorem init_script_nonzero_exit_fatal_witness:
  "trim_string '' sh setup.sh '' \<noteq> [] \<and> (1::int) \<noteq> 0
   \<and> containers (manager example_pipeline_state) ''tmp12345'' = Some ''c0ffee''
   \<and> fst (runSessionCreationPipeline (Some '' sh setup.sh '') ''tmp12345'' ''s1''
          (Inr (1, ''boom'')) example_pipeline_state) = None
   \<and> docker_rm (manager (snd (runSessionCreationPipeline (Some '' sh setup.sh '') ''tmp12345'' ''s1''
          (Inr (1, ''boom'')) example_pipeline_state))) = [''c0ffee'']
   \<and> error_messages (reports (snd (runSessionCreationPipeline (Some '' sh setup.sh '') ''tmp12345''
          ''s1'' (Inr (1, ''boom'')) example_pipeline_state)))
        = [''Init script failed (exit 1):'' @ [CHR 0x0A] @ ''boom'']"
proof -
  have h1: "trim_string '' sh setup.sh '' \<noteq> []"
    by (simp add: trim_string_def is_ws_char_def is_js_whitespace_def)
  have h2: "containers (manager example_pipeline_state) ''tmp12345'' = Some ''c0ffee''"
    by (simp add: example_pipeline_state_def)
  have h3: "error_messages (reports example_pipeline_state) = []
      \<and> docker_rm (manager example_pipeline_state) = []"
    by (simp add: example_pipeline_state_def error_messages_def)
  have h4: "show_int 1 = ''1''"
    by (simp add: show_int_def show_nat.simps digit_char_def)
  from init_script_nonzero_exit_fatal [OF refl h1 refl _ h2 surjective_pairing, of 1 "''s1''" "''boom''"]
    h1 h2 h3 h4
  show ?thesis by simp
qed

section \<open>Properties of cleanupWorktree\<close>

lemma getBySession_removeBySession: "getBySession sid (removeBySession sid ms) = None"
  by (induction ms) (simp_all add: getBySession_def removeBySession_def)

lemma getBySession_removeBySession_other:
  "sid' \<noteq> sid \<Longrightarrow> getBySession sid' (removeBySession sid ms) = getBySession sid' ms"
  by (induction ms) (auto simp: getBySession_def removeBySession_def)

text \<open>
  C6, as stated, fails where another session still uses the worktree: the check for
  other users comes first, it drops this session's mapping and returns
  \<open>cleaned: false\<close> whether or not the worktree is dirty.
\<close>

theorem cleanupWorktree_dirty_in_use_counterexample:
  "isWorktreeDirty ''/wt/feat'' (git example_shared_worktree)
   \<and> getBySession ''s1'' (tracker example_shared_worktree)
       = Some \<lparr>sessionId = ''s1'', repoRoot = ''/repo'', branch = ''feat'',
               actualBranch = Some ''feat-wt-1'', worktreePath = ''/wt/feat''\<rparr>
   \<and> fst (cleanupWorktree ''s1'' False example_shared_worktree)
       = Some \<lparr>cleaned = False, dirty = None, path = ''/wt/feat''\<rparr>
   \<and> getBySession ''s1'' (tracker (snd (cleanupWorktree ''s1'' False example_shared_worktree))) = None"
  by (simp add: example_shared_worktree_def cleanupWorktree_def getBySession_def
      removeBySession_def isWorktreeDirty_def)

text \<open>
  C6, amended. For a session that has a mapping: a branch that the cleanup deletes is the
  mapping's \<open>actualBranch\<close>, differs from the requested branch (the requested branch is
  never deleted), and goes together with the removal of the worktree (the result is
  \<open>cleaned: true\<close>). When no other session uses the worktree, a dirty worktree without
  \<open>force\<close> is refused with \<open>cleaned: false, dirty: true\<close> and nothing changes: the
  mapping is kept. When another session still uses the worktree, the session's mapping
  is dropped, the result is \<open>cleaned: false\<close> and git is left alone, whether or not the
  worktree is dirty. Otherwise the removal is attempted: \<open>cleaned\<close> tells whether git
  removed the worktree, and the mapping is dropped exactly then.
\<close>

theorem cleanupWorktree_branch_and_dirty:
  assumes m: "getBySession sid (tracker st) = Some m"
  shows "(b \<in> branches (git st) \<and> b \<notin> branches (git (snd (cleanupWorktree sid force st)))
            \<longrightarrow> actualBranch m = Some b \<and> b \<noteq> branch m
                \<and> worktreePath m \<notin> worktrees (git (snd (cleanupWorktree sid force st)))
                \<and> fst (cleanupWorktree sid force st)
                    = Some \<lparr>cleaned = True, dirty = None, path = worktreePath m\<rparr>)
    \<and> (isWorktreeDirty (worktreePath m) (git st) \<and> \<not> force
          \<and> \<not> isWorktreeInUse st (worktreePath m) sid
            \<longrightarrow> fst (cleanupWorktree sid force st)
                  = Some \<lparr>cleaned = False, dirty = Some True, path = worktreePath m\<rparr>
                \<and> snd (cleanupWorktree sid force st) = st)
    \<and> (isWorktreeInUse st (worktreePath m) sid
            \<longrightarrow> fst (cleanupWorktree sid force st)
                  = Some \<lparr>cleaned = False, dirty = None, path = worktreePath m\<rparr>
                \<and> snd (cleanupWorktree sid force st)
                  = st\<lparr>tracker := removeBySession sid (tracker st)\<rparr>
                \<and> getBySession sid (tracker (snd (cleanupWorktree sid force st))) = None
                \<and> git (snd (cleanupWorktree sid force st)) = git st)
    \<and> (\<not> isWorktreeInUse st (worktreePath m) sid
          \<and> (force \<or> \<not> isWorktreeDirty (worktreePath m) (git st))
            \<longrightarrow> fst (cleanupWorktree sid force st)
                  = Some \<lparr>cleaned = (\<not> git_fails (git st)), dirty = None, path = worktreePath m\<rparr>
                \<and> (git_fails (git st) \<longrightarrow> snd (cleanupWorktree sid force st) = st)
                \<and> (\<not> git_fails (git st) \<longrightarrow>
                      getBySession sid (tracker (snd (cleanupWorktree sid force st))) = None
                      \<and> worktreePath m \<notin> worktrees (git (snd (cleanupWorktree sid force st)))
                      \<and> (branch m \<in> branches (git st)
                            \<longrightarrow> branch m \<in> branches (git (snd (cleanupWorktree sid force st))))))"
proof -
  have a: "actualBranch m = Some b \<and> b \<noteq> branch m
      \<and> worktreePath m \<notin> worktrees (git (snd (cleanupWorktree sid force st)))
      \<and> fst (cleanupWorktree sid force st)
          = Some \<lparr>cleaned = True, dirty = None, path = worktreePath m\<rparr>"
    if "b \<in> branches (git st) \<and> b \<notin> branches (git (snd (cleanupWorktree sid force st)))"
    using that m
    by (auto simp: cleanupWorktree_def removeWorktree_def Let_def
        split: option.splits if_splits prod.splits)
  have b: "fst (cleanupWorktree sid force st)
        = Some \<lparr>cleaned = False, dirty = Some True, path = worktreePath m\<rparr>
      \<and> snd (cleanupWorktree sid force st) = st"
    if "isWorktreeDirty (worktreePath m) (git st) \<and> \<not> force
          \<and> \<not> isWorktreeInUse st (worktreePath m) sid"
    using that m by (simp add: cleanupWorktree_def)
  have c: "fst (cleanupWorktree sid force st)
        = Some \<lparr>cleaned = False, dirty = None, path = worktreePath m\<rparr>
      \<and> snd (cleanupWorktree sid force st) = st\<lparr>tracker := removeBySession sid (tracker st)\<rparr>
      \<and> getBySession sid (tracker (snd (cleanupWorktree sid force st))) = None
      \<and> git (snd (cleanupWorktree sid force st)) = git st"
    if "isWorktreeInUse st (worktreePath m) sid"
    using that m by (simp add: cleanupWorktree_def getBySession_removeBySession)
  have d: "fst (cleanupWorktree sid force st)
        = Some \<lparr>cleaned = (\<not> git_fails (git st)), dirty = None, path = worktreePath m\<rparr>
      \<and> (git_fails (git st) \<longrightarrow> snd (cleanupWorktree sid force st) = st)
      \<and> (\<not> git_fails (git st) \<longrightarrow>
            getBySession sid (tracker (snd (cleanupWorktree sid force st))) = None
            \<and> worktreePath m \<notin> worktrees (git (snd (cleanupWorktree sid force st)))
            \<and> (branch m \<in> branches (git st)
                  \<longrightarrow> branch m \<in> branches (git (snd (cleanupWorktree sid force st)))))"
    if "\<not> isWorktreeInUse st (worktreePath m) sid
          \<and> (force \<or> \<not> isWorktreeDirty (worktreePath m) (git st))"
    using that m
    by (auto simp: cleanupWorktree_def removeWorktree_def Let_def getBySession_removeBySession
        split: option.splits)
  from a b c d show ?thesis by blast
qed

theorem cleanupWorktree_branch_and_dirty_witness:
  "getBySession ''s1'' (tracker example_own_worktree)
     = Some \<lparr>sessionId = ''s1'', repoRoot = ''/repo'', branch = ''feat'',
             actualBranch = Some ''feat-wt-1'', worktreePath = ''/wt/feat''\<rparr>
   \<and> ''feat-wt-1'' \<in> branches (git example_own_worktree)
   \<and> ''feat-wt-1'' \<notin> branches (git (snd (cleanupWorktree ''s1'' False example_own_worktree)))
   \<and> fst (cleanupWorktree ''s1'' False example_own_worktree)
       = Some \<lparr>cleaned = True, dirty = None, path = ''/wt/feat''\<rparr>
   \<and> getBySession ''s1'' (tracker example_dirty_worktree)
       = Some \<lparr>sessionId = ''s1'', repoRoot = ''/repo'', branch = ''feat'',
               actualBranch = Some ''feat-wt-1'', worktreePath = ''/wt/feat''\<rparr>
   \<and> isWorktreeDirty ''/wt/feat'' (git example_dirty_worktree)
   \<and> \<not> isWorktreeInUse example_dirty_worktree ''/wt/feat'' ''s1''
   \<and> fst (cleanupWorktree ''s1'' False example_dirty_worktree)
       = Some \<lparr>cleaned = False, dirty = Some True, path = ''/wt/feat''\<rparr>
   \<and> snd (cleanupWorktree ''s1'' False example_dirty_worktree) = example_dirty_worktree
   \<and> isWorktreeInUse example_shared_worktree ''/wt/feat'' ''s1''
   \<and> fst (cleanupWorktree ''s1'' True example_shared_worktree)
       = Some \<lparr>cleaned = False, dirty = None, path = ''/wt/feat''\<rparr>
   \<and> getBySession ''s1'' (tracker (snd (cleanupWorktree ''s1'' True example_shared_worktree))) = None
   \<and> getBySession ''s1'' (tracker (snd (cleanupWorktree ''s1'' False example_own_worktree))) = None"
proof -
  let ?m = "\<lparr>sessionId = ''s1'', repoRoot = ''/repo'', branch = ''feat'',
             actualBranch = Some ''feat-wt-1'', worktreePath = ''/wt/feat''\<rparr>"
  have a1: "getBySession ''s1'' (tracker example_own_worktree) = Some ?m"
    by (simp add: example_own_worktree_def getBySession_def)
  have a2: "''feat-wt-1'' \<in> branches (git example_own_worktree)"
    by (simp add: example_own_worktree_def)
  have a3: "''feat-wt-1'' \<notin> branches (git (snd (cleanupWorktree ''s1'' False example_own_worktree)))"
    by (simp add: example_own_worktree_def cleanupWorktree_def getBySession_def
        isWorktreeDirty_def removeWorktree_def)
  have b1: "getBySession ''s1'' (tracker example_dirty_worktree) = Some ?m"
    by (simp add: example_dirty_worktree_def example_own_worktree_def getBySession_def)
  have b2: "isWorktreeDirty ''/wt/feat'' (git example_dirty_worktree)
      \<and> \<not> isWorktreeInUse example_dirty_worktree ''/wt/feat'' ''s1''"
    by (simp add: example_dirty_worktree_def example_own_worktree_def isWorktreeDirty_def)
  have a4: "\<not> isWorktreeInUse example_own_worktree ''/wt/feat'' ''s1''
      \<and> \<not> isWorktreeDirty ''/wt/feat'' (git example_own_worktree)
      \<and> \<not> git_fails (git example_own_worktree)"
    by (simp add: example_own_worktree_def isWorktreeDirty_def)
  from cleanupWorktree_branch_and_dirty [OF a1, of "''feat-wt-1''" False] a2 a3 a4
  have A: "fst (cleanupWorktree ''s1'' False example_own_worktree)
       = Some \<lparr>cleaned = True, dirty = None, path = ''/wt/feat''\<rparr>
     \<and> getBySession ''s1'' (tracker (snd (cleanupWorktree ''s1'' False example_own_worktree))) = None"
    by simp
  have c1: "getBySession ''s1'' (tracker example_shared_worktree) = Some ?m"
    by (simp add: example_shared_worktree_def getBySession_def)
  have c2: "isWorktreeInUse example_shared_worktree ''/wt/feat'' ''s1''"
    by (simp add: example_shared_worktree_def)
  from cleanupWorktree_branch_and_dirty [OF c1, of "''main''" True] c2
  have C: "fst (cleanupWorktree ''s1'' True example_shared_worktree)
       = Some \<lparr>cleaned = False, dirty = None, path = ''/wt/feat''\<rparr>
     \<and> getBySession ''s1'' (tracker (snd (cleanupWorktree ''s1'' True example_shared_worktree))) = None"
    by (simp add: getBySession_removeBySession)
  from cleanupWorktree_branch_and_dirty [OF b1, of "''main''" False] b2
  have B: "fst (cleanupWorktree ''s1'' False example_dirty_worktree)
       = Some \<lparr>cleaned = False, dirty = Some True, path = ''/wt/feat''\<rparr>
     \<and> snd (cleanupWorktree ''s1'' False example_dirty_worktree) = example_dirty_worktree"
    by simp
  from a1 a2 a3 b1 b2 c2 A B C show ?thesis by simp
qed

section \<open>Properties of the sequence cursor\<close>

lemma getLastSeq_nonneg: "cursor_ok sid st \<Longrightarrow> 0 \<le> cursor sid st"
  by (auto simp: cursor_def getLastSeq_def cursor_ok_def Let_def
      split: option.splits stored_text.splits)

lemma getLastSeq_state:
  "cursor sid (snd (getLastSeq sid st)) = cursor sid st"
  "cursor_ok sid st \<Longrightarrow> cursor_ok sid (snd (getLastSeq sid st))"
  "handled (snd (getLastSeq sid st)) = handled st"
  "acks (snd (getLastSeq sid st)) = acks st"
  by (auto simp: cursor_def getLastSeq_def cursor_ok_def Let_def
      split: option.splits stored_text.splits)

lemma setLastSeq_state:
  "cursor sid (setLastSeq sid s st) = max 0 s"
  "cursor_ok sid (setLastSeq sid s st)"
  "handled (setLastSeq sid s st) = handled st"
  "acks (setLastSeq sid s st) = acks st"
  by (auto simp: cursor_def getLastSeq_def setLastSeq_def cursor_ok_def Let_def)

lemma ackSeq_state:
  "cursor sid (ackSeq sid' s st) = cursor sid st"
  "cursor_ok sid (ackSeq sid' s st) = cursor_ok sid st"
  "handled (ackSeq sid' s st) = handled st"
  by (auto simp: cursor_def getLastSeq_def ackSeq_def cursor_ok_def Let_def
      split: option.splits stored_text.splits)

lemma handled_state:
  "cursor sid (st\<lparr>handled := h\<rparr>) = cursor sid st"
  "cursor_ok sid (st\<lparr>handled := h\<rparr>) = cursor_ok sid st"
  by (auto simp: cursor_def getLastSeq_def cursor_ok_def Let_def
      split: option.splits stored_text.splits)

lemma cursor_monotone_all:
  "(cursor_ok sid st \<longrightarrow>
      cursor_ok sid (handleParsedMessage sid m processSeq ackSeqMessage st)
      \<and> cursor sid st \<le> cursor sid (handleParsedMessage sid m processSeq ackSeqMessage st))"
  "(cursor_ok sid st \<longrightarrow>
      cursor_ok sid (dispatch sid b st) \<and> cursor sid st \<le> cursor sid (dispatch sid b st))"
  "(cursor_ok sid st \<longrightarrow>
      cursor_ok sid (snd (replay_loop sid evs latest st))
      \<and> cursor sid st \<le> cursor sid (snd (replay_loop sid evs latest st)))"
proof (induction sid m processSeq ackSeqMessage st and sid b st and sid evs latest st
    rule: handleParsedMessage_dispatch_replay_loop.induct)
  case (1 sid b processSeq ackSeqMessage st)
  then show ?case by simp
next
  case (2 sid s b processSeq ackSeqMessage st)
  show ?case
  proof (intro impI)
    assume ok: "cursor_ok sid st"
    let ?st1 = "snd (getLastSeq sid st)"
    have c: "fst (getLastSeq sid st) = cursor sid st" by (simp add: cursor_def)
    show "cursor_ok sid (handleParsedMessage sid (Message (Some s) b) processSeq ackSeqMessage st)
      \<and> cursor sid st \<le> cursor sid (handleParsedMessage sid (Message (Some s) b) processSeq ackSeqMessage st)"
    proof (cases processSeq)
      case False
      with 2 ok show ?thesis by simp
    next
      case True
      show ?thesis
      proof (cases "s \<le> cursor sid st")
        case le: True
        with True ok show ?thesis by (simp add: c getLastSeq_state)
      next
        case gt: False
        let ?st2 = "(if ackSeqMessage then ackSeq sid s (setLastSeq sid s ?st1)
              else setLastSeq sid s ?st1)"
        have ok2: "cursor_ok sid ?st2" by (simp add: ackSeq_state setLastSeq_state)
        have c2: "cursor sid ?st2 = max 0 s" by (simp add: ackSeq_state setLastSeq_state)
        from "2.IH"(1) [OF True] gt c ok2
        have "cursor_ok sid (dispatch sid b ?st2) \<and> cursor sid ?st2 \<le> cursor sid (dispatch sid b ?st2)"
          by simp
        with True gt c c2 show ?thesis by auto
      qed
    qed
  qed
next
  case (3 sid payload st)
  then show ?case by (simp add: handled_state)
next
  case (4 sid evs st)
  then show ?case by (auto simp: ackSeq_state split: prod.splits option.splits)
next
  case (5 sid latestProcessed st)
  then show ?case by simp
next
  case (6 sid s m evs latestProcessed st)
  show ?case
  proof (intro impI)
    assume ok: "cursor_ok sid st"
    let ?st1 = "snd (getLastSeq sid st)"
    have c: "fst (getLastSeq sid st) = cursor sid st" by (simp add: cursor_def)
    have ok1: "cursor_ok sid ?st1" and c1: "cursor sid ?st1 = cursor sid st"
      using ok by (simp_all add: getLastSeq_state)
    show "cursor_ok sid (snd (replay_loop sid ((s, m) # evs) latestProcessed st))
      \<and> cursor sid st \<le> cursor sid (snd (replay_loop sid ((s, m) # evs) latestProcessed st))"
    proof (cases "s \<le> cursor sid st")
      case True
      with "6.IH"(1) ok1 c c1 show ?thesis by simp
    next
      case False
      let ?st2 = "setLastSeq sid s ?st1"
      let ?st3 = "handleParsedMessage sid m False False ?st2"
      have ok2: "cursor_ok sid ?st2" and c2: "cursor sid ?st2 = max 0 s"
        by (simp_all add: setLastSeq_state)
      from "6.IH"(2) False c ok2 have s3: "cursor_ok sid ?st3" "cursor sid ?st2 \<le> cursor sid ?st3"
        by simp_all
      from "6.IH"(3) False c s3
      have "cursor_ok sid (snd (replay_loop sid evs (Some s) ?st3))
        \<and> cursor sid ?st3 \<le> cursor sid (snd (replay_loop sid evs (Some s) ?st3))"
        by simp
      with False c c2 s3 show ?thesis by auto
    qed
  qed
qed

lemma handleParsedMessage_no_seq:
  "handleParsedMessage sid (Message inner b) False a st = dispatch sid b st"
  by (cases inner) simp_all

lemma above_cursor_last: "last_seq c (above_cursor c ((s, x) # es)) =
    (if s \<le> c then last_seq c (above_cursor c es) else last_seq s (above_cursor s es))"
  by (simp add: last_seq_def)

lemma replay_plain:
  "cursor_ok sid st \<Longrightarrow>
     handled (snd (replay_loop sid (plain_events es) latest st))
       = handled st @ map (\<lambda>(s, inner, t). (sid, t)) (above_cursor (cursor sid st) es)
     \<and> cursor sid (snd (replay_loop sid (plain_events es) latest st))
       = last_seq (cursor sid st) (above_cursor (cursor sid st) es)
     \<and> cursor_ok sid (snd (replay_loop sid (plain_events es) latest st))
     \<and> acks (snd (replay_loop sid (plain_events es) latest st)) = acks st
     \<and> fst (replay_loop sid (plain_events es) latest st)
       = (if above_cursor (cursor sid st) es = [] then latest
          else Some (last_seq (cursor sid st) (above_cursor (cursor sid st) es)))"
proof (induction es arbitrary: st latest)
  case Nil
  then show ?case by (simp add: plain_events_def last_seq_def)
next
  case (Cons e es)
  obtain s inner t where e: "e = (s, inner, t)" by (cases e)
  let ?st1 = "snd (getLastSeq sid st)"
  have c: "fst (getLastSeq sid st) = cursor sid st" by (simp add: cursor_def)
  have pe: "plain_events ((s, inner, t) # es) = (s, Message inner (Other t)) # plain_events es"
    by (simp add: plain_events_def)
  have ok1: "cursor_ok sid ?st1" and c1: "cursor sid ?st1 = cursor sid st"
    using Cons.prems by (simp_all add: getLastSeq_state)
  show ?case
  proof (cases "s \<le> cursor sid st")
    case True
    then have step: "replay_loop sid (plain_events ((s, inner, t) # es)) latest st
        = replay_loop sid (plain_events es) latest ?st1"
      by (simp add: pe c)
    have h1: "handled ?st1 = handled st" "acks ?st1 = acks st"
      by (simp_all add: getLastSeq_state)
    from Cons.IH [OF ok1, of latest] True show ?thesis
      unfolding e step c1 h1 by (simp add: last_seq_def)
  next
    case False
    let ?st3 = "(setLastSeq sid s ?st1)\<lparr>handled := handled st @ [(sid, t)]\<rparr>"
    have pos: "0 \<le> cursor sid st" using Cons.prems by (rule getLastSeq_nonneg)
    have ok3: "cursor_ok sid ?st3" by (simp add: handled_state setLastSeq_state)
    have c3: "cursor sid ?st3 = s" using False pos by (simp add: handled_state setLastSeq_state)
    have step: "replay_loop sid (plain_events ((s, inner, t) # es)) latest st
        = replay_loop sid (plain_events es) (Some s) ?st3"
      using False by (simp add: pe c handleParsedMessage_no_seq setLastSeq_state getLastSeq_state)
    have a3: "acks ?st3 = acks st" by (simp add: setLastSeq_state getLastSeq_state)
    have h3: "handled ?st3 = handled st @ [(sid, t)]" by simp
    from Cons.IH [OF ok3, of "Some s"] False show ?thesis
      unfolding e step c3 a3 h3 by (simp add: last_seq_def)
  qed
qed

lemma receive_all_monotone:
  "cursor_ok sid st \<Longrightarrow>
     cursor_ok sid (receive_all sid ms st) \<and> cursor sid st \<le> cursor sid (receive_all sid ms st)"
proof (induction ms arbitrary: st)
  case Nil
  then show ?case by (simp add: receive_all_def)
next
  case (Cons m ms)
  let ?st1 = "handleParsedMessage sid m True True st"
  from cursor_monotone_all(1) [of sid st m True True] Cons.prems
  have s1: "cursor_ok sid ?st1" "cursor sid st \<le> cursor sid ?st1" by simp_all
  from Cons.IH [OF s1(1)] s1(2) show ?case by (simp add: receive_all_def)
qed

text \<open>
  C9. For a session whose cached cursor is normalized: a message with a numeric
  \<open>seq\<close> at or below the cursor is dropped (nothing is handled, nothing acknowledged,
  the cursor stays); one above the cursor is handled and the cursor becomes its
  \<open>seq\<close>; an \<open>event_replay\<close> batch handles exactly the entries that pass the same
  filter, the cursor following each handled entry; and the cursor never decreases,
  over one message (nested replays included) or any sequence of messages, after which
  the cache is normalized again.
\<close>

theorem seq_cursor_filter:
  assumes ok: "cursor_ok sid st"
  shows "(s \<le> cursor sid st \<longrightarrow>
            handled (handleParsedMessage sid (Message (Some s) b) True ack st) = handled st
            \<and> acks (handleParsedMessage sid (Message (Some s) b) True ack st) = acks st
            \<and> cursor sid (handleParsedMessage sid (Message (Some s) b) True ack st) = cursor sid st)
    \<and> (cursor sid st < s \<longrightarrow>
            handled (handleParsedMessage sid (Message (Some s) (Other t)) True ack st)
              = handled st @ [(sid, t)]
            \<and> cursor sid (handleParsedMessage sid (Message (Some s) (Other t)) True ack st) = s
            \<and> s \<le> cursor sid (handleParsedMessage sid (Message (Some s) b) True ack st))
    \<and> handled (handleEventReplay sid (plain_events es) st)
          = handled st @ map (\<lambda>(s, inner, t). (sid, t)) (above_cursor (cursor sid st) es)
    \<and> cursor sid (handleEventReplay sid (plain_events es) st)
          = last_seq (cursor sid st) (above_cursor (cursor sid st) es)
    \<and> cursor sid st \<le> cursor sid (handleParsedMessage sid m processSeq ack' st)
    \<and> cursor sid st \<le> cursor sid (receive_all sid ms st)
    \<and> cursor_ok sid (receive_all sid ms st)"
proof -
  have c: "fst (getLastSeq sid st) = cursor sid st" by (simp add: cursor_def)
  have pos: "0 \<le> cursor sid st" using ok by (rule getLastSeq_nonneg)
  let ?st1 = "snd (getLastSeq sid st)"
  have dropped: "handleParsedMessage sid (Message (Some s) b) True ack st = ?st1"
    if "s \<le> cursor sid st" using that by (simp add: c)
  have p1: "handled (handleParsedMessage sid (Message (Some s) b) True ack st) = handled st
      \<and> acks (handleParsedMessage sid (Message (Some s) b) True ack st) = acks st
      \<and> cursor sid (handleParsedMessage sid (Message (Some s) b) True ack st) = cursor sid st"
    if "s \<le> cursor sid st"
    unfolding dropped [OF that] by (simp add: getLastSeq_state)
  let ?st2 = "(if ack then ackSeq sid s (setLastSeq sid s ?st1) else setLastSeq sid s ?st1)"
  have ok2: "cursor_ok sid ?st2" by (simp add: ackSeq_state setLastSeq_state)
  have h2: "handled ?st2 = handled st"
    by (simp add: ackSeq_state setLastSeq_state getLastSeq_state)
  have taken: "handleParsedMessage sid (Message (Some s) b') True ack st = dispatch sid b' ?st2"
    if "cursor sid st < s" for b' using that by (simp add: c)
  have c2: "cursor sid ?st2 = s" if "cursor sid st < s"
    using that pos by (simp add: ackSeq_state setLastSeq_state)
  have p2: "handled (handleParsedMessage sid (Message (Some s) (Other t)) True ack st)
              = handled st @ [(sid, t)]
      \<and> cursor sid (handleParsedMessage sid (Message (Some s) (Other t)) True ack st) = s
      \<and> s \<le> cursor sid (handleParsedMessage sid (Message (Some s) b) True ack st)"
    if gt: "cursor sid st < s"
  proof -
    from cursor_monotone_all(2) [of sid ?st2 b] ok2 c2 [OF gt]
    have "s \<le> cursor sid (dispatch sid b ?st2)" by simp
    then show ?thesis
      unfolding taken [OF gt] using c2 [OF gt] h2 by (simp add: handled_state)
  qed
  from replay_plain [OF ok, of es None]
  have p3: "handled (handleEventReplay sid (plain_events es) st)
          = handled st @ map (\<lambda>(s, inner, t). (sid, t)) (above_cursor (cursor sid st) es)
    \<and> cursor sid (handleEventReplay sid (plain_events es) st)
          = last_seq (cursor sid st) (above_cursor (cursor sid st) es)"
    by (cases "replay_loop sid (plain_events es) None st")
      (auto simp: handleEventReplay_def ackSeq_state split: option.splits)
  from cursor_monotone_all(1) [of sid st m processSeq ack'] ok
  have p4: "cursor sid st \<le> cursor sid (handleParsedMessage sid m processSeq ack' st)" by simp
  from receive_all_monotone [OF ok]
  have p5: "cursor sid st \<le> cursor sid (receive_all sid ms st)
      \<and> cursor_ok sid (receive_all sid ms st)" by simp
  from p1 p2 p3 p4 p5 show ?thesis by blast
qed

theorem seq_cursor_filter_witness:
  "cursor_ok ''s1'' example_ws_state
   \<and> cursor ''s1'' example_ws_state = 5
   \<and> handled (handleParsedMessage ''s1'' (Message (Some 5) (Other ''a'')) True True example_ws_state) = []
   \<and> cursor ''s1'' (handleParsedMessage ''s1'' (Message (Some 5) (Other ''a'')) True True
        example_ws_state) = 5
   \<and> handled (handleParsedMessage ''s1'' (Message (Some 6) (Other ''a'')) True True example_ws_state)
       = [(''s1'', ''a'')]
   \<and> cursor ''s1'' (handleParsedMessage ''s1'' (Message (Some 6) (Other ''a'')) True True
        example_ws_state) = 6
   \<and> handled (handleEventReplay ''s1''
        (plain_events [(4, None, ''x''), (7, None, ''y''), (6, None, ''z'')]) example_ws_state)
       = [(''s1'', ''y'')]"
proof -
  have ok: "cursor_ok ''s1'' example_ws_state"
    by (simp add: cursor_ok_def example_ws_state_def)
  have cur: "cursor ''s1'' example_ws_state = 5"
    by (simp add: cursor_def getLastSeq_def example_ws_state_def getLastSeqStorageKey_def)
  have h: "handled example_ws_state = []"
    by (simp add: example_ws_state_def)
  from seq_cursor_filter [OF ok, of 5 "Other ''a''" True "''a''"
      "[(4, None, ''x''), (7, None, ''y''), (6, None, ''z'')]"]
  have A: "handled (handleParsedMessage ''s1'' (Message (Some 5) (Other ''a'')) True True
        example_ws_state) = []
     \<and> cursor ''s1'' (handleParsedMessage ''s1'' (Message (Some 5) (Other ''a'')) True True
        example_ws_state) = 5
     \<and> handled (handleEventReplay ''s1''
        (plain_events [(4, None, ''x''), (7, None, ''y''), (6, None, ''z'')]) example_ws_state)
       = [(''s1'', ''y'')]"
    by (simp add: cur h)
  from seq_cursor_filter [OF ok, of 6 "Other ''a''" True "''a''"]
  have B: "handled (handleParsedMessage ''s1'' (Message (Some 6) (Other ''a'')) True True
        example_ws_state) = [(''s1'', ''a'')]
     \<and> cursor ''s1'' (handleParsedMessage ''s1'' (Message (Some 6) (Other ''a'')) True True
        example_ws_state) = 6"
    by (simp add: cur h)
  from ok cur A B show ?thesis by simp
qed

section \<open>Properties of the plugin manager\<close>

subsection \<open>resolveConfig\<close>

lemma resolveConfig_one_shot:
  "one_shot m \<Longrightarrow> one_shot (snd (resolveConfig plugin stateConfig pers m))"
  by (auto simp: resolveConfig_def one_shot_def Let_def split: option.splits sum.splits)

lemma list_configs_one_shot: "one_shot m \<Longrightarrow> one_shot (list_configs state ps m)"
  by (induction ps arbitrary: m) (simp_all add: resolveConfig_one_shot)

lemma dispatch_loop_one_shot:
  "one_shot (manager_now v) \<Longrightarrow> one_shot (manager_now (snd (dispatch_loop event state t ps v)))"
proof (induction ps arbitrary: v)
  case Nil
  then show ?case by simp
next
  case (Cons p ps)
  let ?m' = "snd (resolveConfig p (config state (pid p)) True (manager_now v))"
  have m': "one_shot ?m'" using Cons.prems by (rule resolveConfig_one_shot)
  have step: "one_shot (manager_now (snd (dispatch_loop event state t ps w)))"
    if "manager_now w = ?m'" for w
    using Cons.IH [of w] m' that by simp
  show ?case
    using Cons.prems Cons.IH [of v] m'
    by (auto simp: Let_def step split: prod.splits handler_behaviour.splits sum.splits
        option.splits)
qed

text \<open>
  C8, as stated, fails for a persisted \<open>null\<close>: the validator of the plugin rejects
  \<open>null\<close>, yet \<open>resolveConfig\<close> validates the default in its place, warns about nothing
  and leaves \<open>null\<close> in the store.
\<close>

theorem resolveConfig_null_counterexample:
  "config (stateStore null_manager) ''strict-plugin'' = Some JNull
   \<and> validateConfig strict_plugin = Some objects_only
   \<and> objects_only JNull = Inl ''config must be an object''
   \<and> fst (resolveConfig strict_plugin (Some JNull) True null_manager) = JObj []
   \<and> config (stateStore (snd (resolveConfig strict_plugin (Some JNull) True null_manager)))
        ''strict-plugin'' = Some JNull
   \<and> warnings (snd (resolveConfig strict_plugin (Some JNull) True null_manager)) = []"
  by (simp add: resolveConfig_def nullish_or_def null_manager_def strict_manager_def
      strict_plugin_def objects_only_def empty_state_def Let_def)

text \<open>
  C8, amended. When the persisted config of a plugin is not \<open>null\<close> and fails the
  plugin's validator, \<open>resolveConfig\<close> (called with \<open>persistDefaultOnInvalid\<close>, as \<open>list\<close>
  and \<open>emit\<close> do) returns the default config and stores it in place of the invalid one;
  it warns only if the plugin is not yet in \<open>warnedInvalidConfig\<close>, and adds it. A
  persisted \<open>null\<close> counts as no config: the validator runs on the default config; when
  it accepts, its result is the effective config and nothing else happens, \<open>null\<close> stays
  in the store; when it rejects the default as well, the default is returned, stored in
  place of \<open>null\<close> and warned about once. Over any \<open>resolveConfig\<close>, \<open>list\<close> or \<open>emit\<close>
  no plugin is warned about twice.
\<close>

theorem resolveConfig_invalid_persisted:
  "(validateConfig plugin = Some validate \<and> validate c = Inl err \<and> c \<noteq> JNull \<longrightarrow>
      fst (resolveConfig plugin (Some c) True m) = defaultConfig plugin
      \<and> config (stateStore (snd (resolveConfig plugin (Some c) True m))) (pid plugin)
          = Some (defaultConfig plugin)
      \<and> pid plugin \<in> warnedInvalidConfig (snd (resolveConfig plugin (Some c) True m))
      \<and> warnings (snd (resolveConfig plugin (Some c) True m))
          = (if pid plugin \<in> warnedInvalidConfig m then warnings m else warnings m @ [pid plugin]))
   \<and> (validateConfig plugin = Some validate \<and> validate (defaultConfig plugin) = Inr c' \<longrightarrow>
        resolveConfig plugin (Some JNull) True m = (c', m))
   \<and> (validateConfig plugin = Some validate \<and> validate (defaultConfig plugin) = Inl err \<longrightarrow>
        fst (resolveConfig plugin (Some JNull) True m) = defaultConfig plugin
        \<and> config (stateStore (snd (resolveConfig plugin (Some JNull) True m))) (pid plugin)
            = Some (defaultConfig plugin)
        \<and> pid plugin \<in> warnedInvalidConfig (snd (resolveConfig plugin (Some JNull) True m))
        \<and> warnings (snd (resolveConfig plugin (Some JNull) True m))
            = (if pid plugin \<in> warnedInvalidConfig m then warnings m else warnings m @ [pid plugin]))
   \<and> (one_shot m0 \<longrightarrow>
          one_shot (snd (resolveConfig plugin' stateConfig pers m0))
          \<and> one_shot (list_plugins m0)
          \<and> one_shot (manager_now (snd (emit event t m0))))"
proof -
  have e: "one_shot (manager_now (snd (emit event t m0)))" if "one_shot m0"
    unfolding emit_def by (rule dispatch_loop_one_shot) (simp add: that)
  have sequences: "one_shot m0 \<longrightarrow>
          one_shot (snd (resolveConfig plugin' stateConfig pers m0))
          \<and> one_shot (list_plugins m0)
          \<and> one_shot (manager_now (snd (emit event t m0)))"
    using e by (simp add: resolveConfig_one_shot list_plugins_def list_configs_one_shot)
  have single: "fst (resolveConfig plugin (Some c) True m) = defaultConfig plugin
    \<and> config (stateStore (snd (resolveConfig plugin (Some c) True m))) (pid plugin)
        = Some (defaultConfig plugin)
    \<and> pid plugin \<in> warnedInvalidConfig (snd (resolveConfig plugin (Some c) True m))
    \<and> warnings (snd (resolveConfig plugin (Some c) True m))
        = (if pid plugin \<in> warnedInvalidConfig m then warnings m else warnings m @ [pid plugin])"
    if "validateConfig plugin = Some validate \<and> validate c = Inl err \<and> c \<noteq> JNull"
  proof -
    from that have raw: "nullish_or (Some c) (defaultConfig plugin) = c"
      by (cases c) (simp_all add: nullish_or_def)
    from that show ?thesis by (simp add: resolveConfig_def raw Let_def)
  qed
  have raw_null: "nullish_or (Some JNull) (defaultConfig plugin) = defaultConfig plugin"
    by (simp add: nullish_or_def)
  have null_ok: "resolveConfig plugin (Some JNull) True m = (c', m)"
    if "validateConfig plugin = Some validate \<and> validate (defaultConfig plugin) = Inr c'"
    using that by (simp add: resolveConfig_def raw_null)
  have null_bad: "fst (resolveConfig plugin (Some JNull) True m) = defaultConfig plugin
    \<and> config (stateStore (snd (resolveConfig plugin (Some JNull) True m))) (pid plugin)
        = Some (defaultConfig plugin)
    \<and> pid plugin \<in> warnedInvalidConfig (snd (resolveConfig plugin (Some JNull) True m))
    \<and> warnings (snd (resolveConfig plugin (Some JNull) True m))
        = (if pid plugin \<in> warnedInvalidConfig m then warnings m else warnings m @ [pid plugin])"
    if "validateConfig plugin = Some validate \<and> validate (defaultConfig plugin) = Inl err"
    using that by (simp add: resolveConfig_def raw_null Let_def)
  from single null_ok null_bad sequences show ?thesis by blast
qed

theorem resolveConfig_invalid_persisted_witness:
  "validateConfig strict_plugin = Some objects_only
   \<and> objects_only (JNum 5) = Inl ''config must be an object''
   \<and> objects_only (defaultConfig strict_plugin) = Inr (JObj [])
   \<and> validateConfig broken_default_plugin = Some objects_only
   \<and> objects_only (defaultConfig broken_default_plugin) = Inl ''config must be an object''
   \<and> one_shot strict_manager
   \<and> fst (resolveConfig strict_plugin (Some (JNum 5)) True strict_manager) = JObj []
   \<and> config (stateStore (snd (resolveConfig strict_plugin (Some (JNum 5)) True strict_manager)))
        ''strict-plugin'' = Some (JObj [])
   \<and> warnings (snd (resolveConfig strict_plugin (Some (JNum 5)) True strict_manager))
        = [''strict-plugin'']
   \<and> resolveConfig strict_plugin (Some JNull) True null_manager = (JObj [], null_manager)
   \<and> config (stateStore (snd (resolveConfig broken_default_plugin (Some JNull) True null_manager)))
        ''strict-plugin'' = Some (JNum 0)
   \<and> warnings (snd (resolveConfig broken_default_plugin (Some JNull) True null_manager))
        = [''strict-plugin'']
   \<and> one_shot (list_plugins strict_manager)"
proof -
  have h1: "validateConfig strict_plugin = Some objects_only"
    "validateConfig broken_default_plugin = Some objects_only"
    by (simp_all add: strict_plugin_def broken_default_plugin_def)
  have h2: "objects_only (JNum 5) = Inl ''config must be an object''"
    "objects_only (defaultConfig strict_plugin) = Inr (JObj [])"
    "objects_only (defaultConfig broken_default_plugin) = Inl ''config must be an object''"
    by (simp_all add: objects_only_def strict_plugin_def broken_default_plugin_def)
  have h3: "one_shot strict_manager"
    by (simp add: one_shot_def strict_manager_def)
  have d: "defaultConfig strict_plugin = JObj []" "pid strict_plugin = ''strict-plugin''"
    "defaultConfig broken_default_plugin = JNum 0"
    "pid broken_default_plugin = ''strict-plugin''"
    "warnedInvalidConfig strict_manager = {}" "warnings strict_manager = []"
    "warnedInvalidConfig null_manager = {}" "warnings null_manager = []"
    by (simp_all add: strict_plugin_def broken_default_plugin_def strict_manager_def
        null_manager_def)
  from resolveConfig_invalid_persisted [where plugin = strict_plugin and validate = objects_only
      and c = "JNum 5" and m = strict_manager and ?m0.0 = strict_manager
      and err = "''config must be an object''"]
    resolveConfig_invalid_persisted [where plugin = strict_plugin and validate = objects_only
      and c' = "JObj []" and m = null_manager]
    resolveConfig_invalid_persisted [where plugin = broken_default_plugin
      and validate = objects_only and m = null_manager
      and err = "''config must be an object''"]
    h1 h2 h3
  show ?thesis by (simp add: d)
qed

subsection \<open>The dispatch loop, one plugin at a time\<close>

lemma fst_resolveConfig:
  "fst (resolveConfig plugin (config state (pid plugin)) pers m) = resolved_config state plugin"
  by (simp add: resolveConfig_def resolved_config_def Let_def split: option.splits sum.splits)

lemma entered_fields:
  "invoked (entered state p v) = invoked v @ [p]"
  "insights (entered state p v) = insights v"
  "permissionDecision (entered state p v) = permissionDecision v"
  "aborted (entered state p v) = aborted v"
  "onInsight (entered state p v) = onInsight v"
  by (simp_all add: entered_def)

lemma loop_disabled:
  "\<not> is_enabled state p \<Longrightarrow>
     dispatch_loop event state t (p # rest) v = dispatch_loop event state t rest v"
  by simp

lemma loop_unguarded:
  assumes "is_enabled state p" and "throws_unguarded event state p = Some e"
  shows "dispatch_loop event state t (p # rest) v = (Some e, entered state p v)"
proof -
  from assms(2) have nb: "\<not> blocking p" and b: "behaviour_of event state p = ThrowsSync e"
    by (auto simp: throws_unguarded_def split: if_splits handler_behaviour.splits)
  from b have "onEvent p event (resolved_config state p) = ThrowsSync e"
    by (simp add: behaviour_of_def)
  with assms(1) nb show ?thesis
    by (simp add: Let_def split_beta fst_resolveConfig entered_def)
qed

lemma loop_nonblocking:
  assumes "is_enabled state p" and "\<not> blocking p" and "throws_unguarded event state p = None"
  shows "dispatch_loop event state t (p # rest) v =
     dispatch_loop event state t rest
       ((entered state p v)\<lparr>onInsight := onInsight v @ callback_insights event state t p\<rparr>)"
proof -
  from assms(2,3) have "\<forall>e. onEvent p event (resolved_config state p) \<noteq> ThrowsSync e"
    by (auto simp: throws_unguarded_def behaviour_of_def split: handler_behaviour.splits)
  with assms(1,2) show ?thesis
    by (cases "onEvent p event (resolved_config state p)")
      (simp_all add: Let_def split_beta fst_resolveConfig entered_def callback_insights_def
        plugin_outcome_def behaviour_of_def)
qed

lemma loop_abort:
  assumes "is_enabled state p" and "aborts event state p"
  shows "dispatch_loop event state t (p # rest) v =
     (None, (entered state p v)\<lparr>insights := insights v @ blocking_insights event state t p,
                                aborted := True\<rparr>)"
proof -
  from assms(2) obtain err where b: "blocking p"
    and o: "plugin_outcome event state p = Inl err"
    and fp: "failPolicy p = Some Abort_current_action"
    by (auto simp: aborts_def fails_with_def split: sum.splits)
  from o have "runWithTimeout (onEvent p event (resolved_config state p))
      (case timeoutMs p of None \<Rightarrow> DEFAULT_TIMEOUT_MS | Some n \<Rightarrow> n) = Inl err"
    by (simp add: plugin_outcome_def behaviour_of_def)
  with assms(1) b fp o show ?thesis
    by (simp add: Let_def split_beta fst_resolveConfig entered_def blocking_insights_def)
qed

lemma first_some_pair: "first_some [x, y] = (if x = None \<and> y \<noteq> None then y else x)"
  by (cases x; cases y) simp_all

lemma loop_blocking:
  assumes "is_enabled state p" and "blocking p" and "\<not> aborts event state p"
  shows "dispatch_loop event state t (p # rest) v =
     dispatch_loop event state t rest
       ((entered state p v)\<lparr>insights := insights v @ blocking_insights event state t p,
          permissionDecision := first_some [permissionDecision v, decision_of event state p]\<rparr>)"
proof -
  let ?o = "runWithTimeout (onEvent p event (resolved_config state p))
      (case timeoutMs p of None \<Rightarrow> DEFAULT_TIMEOUT_MS | Some n \<Rightarrow> n)"
  have o: "plugin_outcome event state p = ?o"
    by (simp add: plugin_outcome_def behaviour_of_def)
  show ?thesis
  proof (cases ?o)
    case (Inl err)
    with assms(2,3) o have "(case failPolicy p of None \<Rightarrow> Continue | Some fp \<Rightarrow> fp) \<noteq> Abort_current_action"
      by (auto simp: aborts_def fails_with_def split: option.splits)
    with assms(1,2) Inl o show ?thesis
      by (simp add: Let_def split_beta fst_resolveConfig entered_def blocking_insights_def
          decision_of_def first_some_pair)
  next
    case (Inr r)
    show ?thesis
    proof (cases r)
      case None
      with assms(1,2) Inr o show ?thesis
        by (simp add: Let_def split_beta fst_resolveConfig entered_def blocking_insights_def
            decision_of_def first_some_pair)
    next
      case (Some res)
      with assms(1,2) Inr o show ?thesis
        by (simp add: Let_def split_beta fst_resolveConfig entered_def blocking_insights_def
            decision_of_def first_some_pair)
    qed
  qed
qed

lemma dispatch_cases [case_names disabled unguarded nonblocking abort blocking]:
  obtains "\<not> is_enabled state p"
  | e where "is_enabled state p" "throws_unguarded event state p = Some e" "\<not> blocking p"
      "\<not> aborts event state p"
  | "is_enabled state p" "\<not> blocking p" "throws_unguarded event state p = None"
      "\<not> aborts event state p"
  | "is_enabled state p" "aborts event state p" "blocking p" "throws_unguarded event state p = None"
  | "is_enabled state p" "blocking p" "\<not> aborts event state p"
      "throws_unguarded event state p = None"
proof (cases "is_enabled state p")
  case False
  then show ?thesis using that(1) by simp
next
  case en: True
  show ?thesis
  proof (cases "blocking p")
    case True
    then have "throws_unguarded event state p = None" by (simp add: throws_unguarded_def)
    with en True show ?thesis using that(4,5) by (cases "aborts event state p") simp_all
  next
    case False
    then have "\<not> aborts event state p" by (simp add: aborts_def)
    with en False show ?thesis using that(2,3)
      by (cases "throws_unguarded event state p") simp_all
  qed
qed

lemma first_some_cons: "first_some (first_some [x, y] # zs) = first_some (x # y # zs)"
  by (cases x; cases y) simp_all

lemma dispatch_loop_invoked:
  "invoked (snd (dispatch_loop event state t ps v)) = invoked v @ dispatched event state ps"
proof (induction ps arbitrary: v)
  case Nil
  then show ?case by simp
next
  case (Cons p ps)
  show ?case
    by (cases rule: dispatch_cases [where state = state and p = p and event = event])
      (simp_all del: dispatch_loop.simps(2)
        add: loop_disabled loop_unguarded loop_nonblocking loop_abort loop_blocking Cons.IH
        entered_fields stops_def)
qed

lemma dispatch_loop_insights:
  "insights (snd (dispatch_loop event state t ps v))
     = insights v @ concat (map (blocking_insights event state t)
         (filter blocking (dispatched event state ps)))"
proof (induction ps arbitrary: v)
  case Nil
  then show ?case by simp
next
  case (Cons p ps)
  show ?case
    by (cases rule: dispatch_cases [where state = state and p = p and event = event])
      (simp_all del: dispatch_loop.simps(2)
        add: loop_disabled loop_unguarded loop_nonblocking loop_abort loop_blocking Cons.IH
        entered_fields stops_def)
qed

lemma dispatch_loop_decision:
  "permissionDecision (snd (dispatch_loop event state t ps v))
     = first_some (permissionDecision v
         # map (decision_of event state) (filter blocking (dispatched event state ps)))"
proof (induction ps arbitrary: v)
  case Nil
  then show ?case by (cases "permissionDecision v") simp_all
next
  case (Cons p ps)
  have fail_none: "decision_of event state p = None" if "aborts event state p"
    using that by (auto simp: aborts_def fails_with_def decision_of_def split: sum.splits)
  have two: "first_some [x, None] = x" "first_some [x] = x" for x :: "decision option"
    by (cases x; simp)+
  show ?case
    by (cases rule: dispatch_cases [where state = state and p = p and event = event])
      (simp_all del: dispatch_loop.simps(2)
        add: loop_disabled loop_unguarded loop_nonblocking loop_abort loop_blocking Cons.IH
        entered_fields stops_def first_some_cons fail_none two)
qed

lemma dispatch_loop_aborted:
  "aborted (snd (dispatch_loop event state t ps v))
     \<longleftrightarrow> aborted v \<or> list_ex (aborts event state) (dispatched event state ps)"
proof (induction ps arbitrary: v)
  case Nil
  then show ?case by simp
next
  case (Cons p ps)
  show ?case
    by (cases rule: dispatch_cases [where state = state and p = p and event = event])
      (simp_all del: dispatch_loop.simps(2)
        add: loop_disabled loop_unguarded loop_nonblocking loop_abort loop_blocking Cons.IH
        entered_fields stops_def)
qed

lemma dispatch_loop_rejected:
  "fst (dispatch_loop event state t ps v)
     = first_some (map (throws_unguarded event state) (dispatched event state ps))"
proof (induction ps arbitrary: v)
  case Nil
  then show ?case by simp
next
  case (Cons p ps)
  show ?case
    by (cases rule: dispatch_cases [where state = state and p = p and event = event])
      (simp_all del: dispatch_loop.simps(2)
        add: loop_disabled loop_unguarded loop_nonblocking loop_abort loop_blocking Cons.IH
        entered_fields stops_def)
qed

lemma dispatch_loop_onInsight:
  "onInsight (snd (dispatch_loop event state t ps v))
     = onInsight v @ concat (map (callback_insights event state t)
         (filter (\<lambda>p. \<not> blocking p \<and> throws_unguarded event state p = None)
            (dispatched event state ps)))"
proof (induction ps arbitrary: v)
  case Nil
  then show ?case by simp
next
  case (Cons p ps)
  show ?case
    by (cases rule: dispatch_cases [where state = state and p = p and event = event])
      (simp_all del: dispatch_loop.simps(2)
        add: loop_disabled loop_unguarded loop_nonblocking loop_abort loop_blocking Cons.IH
        entered_fields stops_def)
qed

subsection \<open>The plugins that a dispatch reaches\<close>

lemma dispatched_takeWhile:
  "dispatched event state ps =
     takeWhile (\<lambda>p. \<not> stops event state p) (filter (is_enabled state) ps)
       @ take 1 (dropWhile (\<lambda>p. \<not> stops event state p) (filter (is_enabled state) ps))"
  by (induction ps) simp_all

lemma dispatched_prefix: "prefix (dispatched event state ps) (filter (is_enabled state) ps)"
proof -
  let ?cs = "filter (is_enabled state) ps"
  let ?P = "\<lambda>p. \<not> stops event state p"
  have "?cs = (takeWhile ?P ?cs @ take 1 (dropWhile ?P ?cs)) @ drop 1 (dropWhile ?P ?cs)"
    by simp
  then show ?thesis
    unfolding dispatched_takeWhile by (metis prefixI)
qed

lemma dispatched_all:
  "\<not> list_ex (stops event state) (dispatched event state ps)
     \<Longrightarrow> dispatched event state ps = filter (is_enabled state) ps"
  by (induction ps) (auto split: if_splits)

lemma dispatched_stop_last:
  "dispatched event state ps = xs @ p # ys \<Longrightarrow> stops event state p \<Longrightarrow> ys = []"
proof (induction ps arbitrary: xs)
  case Nil
  then show ?case by simp
next
  case (Cons a ps)
  show ?case
  proof (cases "is_enabled state a")
    case False
    with Cons show ?thesis by simp
  next
    case en: True
    show ?thesis
    proof (cases "stops event state a")
      case True
      with en Cons.prems show ?thesis by (cases xs) auto
    next
      case False
      with en Cons.prems have d: "a # dispatched event state ps = xs @ p # ys" by simp
      show ?thesis
      proof (cases xs)
        case Nil
        with d False Cons.prems(2) show ?thesis by simp
      next
        case (Cons x xs')
        with d have "dispatched event state ps = xs' @ p # ys" by simp
        from Cons.IH [OF this Cons.prems(2)] show ?thesis .
      qed
    qed
  qed
qed

lemma dispatched_continue:
  "prefix (xs @ [p]) (dispatched event state ps) \<Longrightarrow> \<not> stops event state p
     \<Longrightarrow> filter (is_enabled state) ps = xs @ p # q # ys
     \<Longrightarrow> prefix (xs @ [p, q]) (dispatched event state ps)"
proof (induction ps arbitrary: xs)
  case Nil
  then show ?case by simp
next
  case (Cons a ps)
  show ?case
  proof (cases "is_enabled state a")
    case False
    with Cons show ?thesis by simp
  next
    case en: True
    show ?thesis
    proof (cases xs)
      case Nil
      with en Cons.prems have a: "a = p" and f: "filter (is_enabled state) ps = q # ys"
        by simp_all
      from f obtain ps1 ps2 where ps: "ps = ps1 @ q # ps2" and dis: "\<forall>u\<in>set ps1. \<not> is_enabled state u"
        and q: "is_enabled state q"
        by (auto simp: filter_eq_Cons_iff)
      have skip: "dispatched event state (ps1 @ rest) = dispatched event state rest"
        if "\<forall>u\<in>set ps1. \<not> is_enabled state u" for ps1 rest
        using that by (induction ps1) simp_all
      have "prefix [q] (dispatched event state (q # ps2))"
        using q by simp
      with skip [OF dis] ps have "prefix [q] (dispatched event state ps)" by simp
      with Nil en a Cons.prems(2) show ?thesis by simp
    next
      case (Cons x xs')
      with en Cons.prems(3) have ax: "a = x" and f: "filter (is_enabled state) ps = xs' @ p # q # ys"
        by simp_all
      from Cons.prems(1) Cons en ax have ns: "\<not> stops event state a"
        by (auto split: if_splits)
      with Cons.prems(1) Cons en ax have "prefix (xs' @ [p]) (dispatched event state ps)"
        by simp
      from Cons.IH [OF this Cons.prems(2) f] Cons en ax ns show ?thesis by simp
    qed
  qed
qed

subsection \<open>emit\<close>

lemma emit_invoked:
  "invoked (snd (emit event t m)) = dispatched event (stateStore m) (candidates event (definitions m))"
  by (simp add: emit_def dispatch_loop_invoked)

lemma first_some_None_iff: "first_some xs = None \<longleftrightarrow> (\<forall>x\<in>set xs. x = None)"
  by (induction xs rule: first_some.induct) simp_all

lemma first_some_append: "\<forall>x\<in>set xs. x = None \<Longrightarrow> first_some (xs @ ys) = first_some ys"
  by (induction xs) simp_all

text \<open>
  C2. The \<open>permissionDecision\<close> of \<open>emit\<close> is the first decision that a blocking
  plugin's run returns, in the order in which the plugins were invoked; decisions of
  later plugins are dropped. The \<open>insights\<close> of the result come from blocking plugins
  only. What a non-blocking plugin returns reaches nothing but the \<open>onInsight\<close>
  callback, and only its insights do; the result of \<open>emit\<close> has no mutation at all.
\<close>

theorem emit_first_decision:
  "permissionDecision (snd (emit event t m))
     = first_some (map (decision_of event (stateStore m))
         (filter blocking (invoked (snd (emit event t m)))))
   \<and> insights (snd (emit event t m))
     = concat (map (blocking_insights event (stateStore m) t)
         (filter blocking (invoked (snd (emit event t m)))))
   \<and> (fst (emit event t m) = None \<longrightarrow>
        onInsight (snd (emit event t m))
          = concat (map (callback_insights event (stateStore m) t)
              (filter (\<lambda>p. \<not> blocking p) (invoked (snd (emit event t m))))))
   \<and> (invoked (snd (emit event t m)) = xs @ p # ys \<and> blocking p
        \<and> decision_of event (stateStore m) p = Some d
        \<and> (\<forall>q\<in>set xs. blocking q \<longrightarrow> decision_of event (stateStore m) q = None)
      \<longrightarrow> permissionDecision (snd (emit event t m)) = Some d)"
proof -
  let ?st = "stateStore m"
  let ?inv = "invoked (snd (emit event t m))"
  have inv: "?inv = dispatched event ?st (candidates event (definitions m))"
    by (rule emit_invoked)
  have dec: "permissionDecision (snd (emit event t m))
     = first_some (map (decision_of event ?st) (filter blocking ?inv))"
    unfolding inv by (simp add: emit_def dispatch_loop_decision)
  have ins: "insights (snd (emit event t m))
     = concat (map (blocking_insights event ?st t) (filter blocking ?inv))"
    unfolding inv by (simp add: emit_def dispatch_loop_insights)
  have cb: "onInsight (snd (emit event t m))
          = concat (map (callback_insights event ?st t) (filter (\<lambda>p. \<not> blocking p) ?inv))"
    if "fst (emit event t m) = None"
  proof -
    from that have "\<forall>p\<in>set ?inv. throws_unguarded event ?st p = None"
      unfolding inv by (simp add: emit_def dispatch_loop_rejected first_some_None_iff)
    then have "filter (\<lambda>p. \<not> blocking p \<and> throws_unguarded event ?st p = None) ?inv
        = filter (\<lambda>p. \<not> blocking p) ?inv"
      by (auto intro: filter_cong)
    then show ?thesis
      unfolding inv by (simp add: emit_def dispatch_loop_onInsight)
  qed
  have first: "permissionDecision (snd (emit event t m)) = Some d"
    if "?inv = xs @ p # ys" "blocking p" "decision_of event ?st p = Some d"
      "\<forall>q\<in>set xs. blocking q \<longrightarrow> decision_of event ?st q = None"
  proof -
    have "\<forall>x\<in>set (map (decision_of event ?st) (filter blocking xs)). x = None"
      using that(4) by auto
    from first_some_append [OF this] that(1,2,3) show ?thesis
      unfolding dec by simp
  qed
  from dec ins cb first show ?thesis by blast
qed

lemmas plugin_examples =
  gated_plugin_def allow_plugin_def observer_plugin_def deciding_manager_def empty_state_def
  permission_requested_def

lemmas emit_eval =
  emit_def candidates_def is_enabled_def resolveConfig_def nullish_or_def runWithTimeout_def
  nonblocking_insights_def nonempty_insights_def Let_def

theorem emit_first_decision_witness:
  "fst (emit permission_requested 7 deciding_manager) = None
   \<and> invoked (snd (emit permission_requested 7 deciding_manager))
       = [observer_plugin] @ allow_plugin # [gated_plugin]
   \<and> blocking allow_plugin \<and> \<not> blocking observer_plugin
   \<and> decision_of permission_requested (stateStore deciding_manager) allow_plugin
       = Some allow_decision
   \<and> permissionDecision (snd (emit permission_requested 7 deciding_manager)) = Some allow_decision
   \<and> onInsight (snd (emit permission_requested 7 deciding_manager)) = [note_insight]"
proof -
  have h1: "fst (emit permission_requested 7 deciding_manager) = None"
    by (simp add: emit_eval plugin_examples)
  have h2: "invoked (snd (emit permission_requested 7 deciding_manager))
       = [observer_plugin] @ allow_plugin # [gated_plugin]"
    by (simp add: emit_eval plugin_examples)
  have h3: "blocking allow_plugin \<and> \<not> blocking observer_plugin"
    by (simp add: plugin_examples)
  have h3': "blocking gated_plugin"
    by (simp add: plugin_examples)
  have h4: "decision_of permission_requested (stateStore deciding_manager) allow_plugin
       = Some allow_decision"
    by (simp add: decision_of_def plugin_outcome_def behaviour_of_def resolved_config_def
        emit_eval plugin_examples)
  have h5: "\<forall>q\<in>set [observer_plugin]. blocking q \<longrightarrow>
      decision_of permission_requested (stateStore deciding_manager) q = None"
    by (simp add: plugin_examples)
  have h6: "callback_insights permission_requested (stateStore deciding_manager) 7 observer_plugin
      = [note_insight]"
    by (simp add: callback_insights_def plugin_outcome_def behaviour_of_def resolved_config_def
        emit_eval plugin_examples)
  from emit_first_decision [of permission_requested 7 deciding_manager "[observer_plugin]"
      allow_plugin "[gated_plugin]" allow_decision] h1 h2 h3 h3' h4 h5 h6
  show ?thesis by simp
qed

lemma dispatched_not_stopping_before:
  "dispatched event state ps = xs @ p # ys \<Longrightarrow> \<forall>x\<in>set xs. \<not> stops event state x"
proof
  fix x assume d: "dispatched event state ps = xs @ p # ys" and "x \<in> set xs"
  then obtain as bs where "xs = as @ x # bs" by (auto simp: in_set_conv_decomp)
  with d have "dispatched event state ps = as @ x # (bs @ p # ys)" by simp
  then show "\<not> stops event state x"
    using dispatched_stop_last [of event state ps as x "bs @ p # ys"] by auto
qed

lemma failing_run_policy:
  assumes reached: "prefix (xs @ [p]) (invoked (snd (emit event t m)))"
    and blocking: "blocking p"
    and fails: "fails_with event (stateStore m) p = Some err"
  shows "toPluginErrorInsight (pid p) event t err \<in> set (insights (snd (emit event t m)))
    \<and> plugin_id (toPluginErrorInsight (pid p) event t err) = pid p
    \<and> level (toPluginErrorInsight (pid p) event t err) = ''error''
    \<and> (failPolicy p = Some Abort_current_action \<longrightarrow>
          invoked (snd (emit event t m)) = xs @ [p]
          \<and> aborted (snd (emit event t m))
          \<and> fst (emit event t m) = None)
    \<and> (failPolicy p \<noteq> Some Abort_current_action \<longrightarrow>
          (\<forall>q ys. filter (is_enabled (stateStore m)) (candidates event (definitions m))
                     = xs @ p # q # ys
                 \<longrightarrow> prefix (xs @ [p, q]) (invoked (snd (emit event t m)))))"
proof -
  let ?st = "stateStore m"
  let ?cs = "candidates event (definitions m)"
  let ?inv = "invoked (snd (emit event t m))"
  have inv: "?inv = dispatched event ?st ?cs" by (rule emit_invoked)
  from reached obtain ys where dec: "?inv = xs @ p # ys"
    by (auto simp: prefix_def)
  from fails have out: "plugin_outcome event ?st p = Inl err"
    by (auto simp: fails_with_def split: sum.splits)
  have "p \<in> set (filter blocking ?inv)" using dec blocking by simp
  moreover have "blocking_insights event ?st t p = [toPluginErrorInsight (pid p) event t err]"
    by (simp add: blocking_insights_def out)
  ultimately have a: "toPluginErrorInsight (pid p) event t err \<in> set (insights (snd (emit event t m)))"
    unfolding inv by (force simp: emit_def dispatch_loop_insights)
  have nothrow: "throws_unguarded event ?st p = None"
    using blocking by (simp add: throws_unguarded_def)
  have b: "invoked (snd (emit event t m)) = xs @ [p] \<and> aborted (snd (emit event t m))
      \<and> fst (emit event t m) = None"
    if fp: "failPolicy p = Some Abort_current_action"
  proof -
    from fp blocking fails have ab: "aborts event ?st p" by (simp add: aborts_def)
    then have st: "stops event ?st p" by (simp add: stops_def)
    from dec have d: "dispatched event ?st ?cs = xs @ p # ys" by (simp add: inv)
    from dispatched_stop_last [OF d st] have ys: "ys = []" .
    from dispatched_not_stopping_before [OF d]
    have "\<forall>x\<in>set xs. throws_unguarded event ?st x = None" by (simp add: stops_def)
    with nothrow have "fst (emit event t m) = None"
      by (simp add: emit_def dispatch_loop_rejected first_some_None_iff d ys)
    moreover have "aborted (snd (emit event t m))"
      using ab by (simp add: emit_def dispatch_loop_aborted d ys)
    ultimately show ?thesis using dec ys by simp
  qed
  have c: "prefix (xs @ [p, q]) ?inv"
    if fp: "failPolicy p \<noteq> Some Abort_current_action"
      and cs: "filter (is_enabled ?st) ?cs = xs @ p # q # zs" for q zs
  proof -
    from fp nothrow have "\<not> stops event ?st p" by (simp add: stops_def aborts_def)
    from dispatched_continue [OF _ this cs] reached show ?thesis by (simp add: inv)
  qed
  from a b c show ?thesis by (simp add: toPluginErrorInsight_def)
qed

text \<open>
  C4. When the handler of a blocking plugin that \<open>emit\<close> invoked (after the plugins
  \<open>xs\<close>) throws, rejects or does not settle before its timeout, an error insight with
  the plugin's id and the error's message is among the insights of the result. With
  \<open>failPolicy\<close> \<open>abort_current_action\<close> it is the last plugin invoked, the result is
  marked aborted and \<open>emit\<close> returns; otherwise the next enabled candidate is invoked
  as well.
\<close>

theorem blocking_failure_policy:
  assumes reached: "prefix (xs @ [p]) (invoked (snd (emit event t m)))"
    and blocking: "blocking p"
    and failure:
      "onEvent p event (fst (resolveConfig p (config (stateStore m) (pid p)) True m)) = ThrowsSync err
       \<or> onEvent p event (fst (resolveConfig p (config (stateStore m) (pid p)) True m)) = Rejects err
       \<or> (onEvent p event (fst (resolveConfig p (config (stateStore m) (pid p)) True m)) = Hangs
           \<and> err = ''Plugin timeout after ''
                 @ show_nat (case timeoutMs p of None \<Rightarrow> DEFAULT_TIMEOUT_MS | Some n \<Rightarrow> n)
                 @ ''ms'')"
  shows "toPluginErrorInsight (pid p) event t err \<in> set (insights (snd (emit event t m)))
    \<and> plugin_id (toPluginErrorInsight (pid p) event t err) = pid p
    \<and> insight_message (toPluginErrorInsight (pid p) event t err) = err
    \<and> level (toPluginErrorInsight (pid p) event t err) = ''error''
    \<and> (failPolicy p = Some Abort_current_action \<longrightarrow>
          invoked (snd (emit event t m)) = xs @ [p]
          \<and> aborted (snd (emit event t m))
          \<and> fst (emit event t m) = None)
    \<and> (failPolicy p \<noteq> Some Abort_current_action \<longrightarrow>
          (\<forall>q ys. filter (is_enabled (stateStore m)) (candidates event (definitions m))
                     = xs @ p # q # ys
                 \<longrightarrow> prefix (xs @ [p, q]) (invoked (snd (emit event t m)))))"
proof -
  from failure have "fails_with event (stateStore m) p = Some err"
    by (auto simp: fails_with_def plugin_outcome_def behaviour_of_def runWithTimeout_def
        fst_resolveConfig)
  from failing_run_policy [OF reached blocking this] show ?thesis
    by (simp add: toPluginErrorInsight_def)
qed

lemmas failing_examples =
  strict_plugin_def aborting_plugin_def flaky_plugin_def failing_manager_def empty_state_def
  session_created_def objects_only_def

lemmas rejecting_examples =
  strict_plugin_def aborting_plugin_def flaky_plugin_def rejecting_plugin_def
  rejecting_manager_def empty_state_def session_created_def objects_only_def

theorem blocking_failure_policy_witness:
  "invoked (snd (emit session_created 7 rejecting_manager))
     = [rejecting_plugin, flaky_plugin, aborting_plugin]
   \<and> blocking rejecting_plugin \<and> blocking flaky_plugin \<and> blocking aborting_plugin
   \<and> onEvent rejecting_plugin session_created (JObj []) = Rejects ''nope''
   \<and> onEvent flaky_plugin session_created (JObj []) = Hangs
   \<and> onEvent aborting_plugin session_created (JObj []) = ThrowsSync ''abort''
   \<and> failPolicy rejecting_plugin = Some Continue
   \<and> failPolicy flaky_plugin = None
   \<and> failPolicy aborting_plugin = Some Abort_current_action
   \<and> filter (is_enabled (stateStore rejecting_manager))
         (candidates session_created (definitions rejecting_manager))
       = [rejecting_plugin, flaky_plugin, aborting_plugin, strict_plugin]
   \<and> toPluginErrorInsight ''rejecting-plugin'' session_created 7 ''nope''
       \<in> set (insights (snd (emit session_created 7 rejecting_manager)))
   \<and> toPluginErrorInsight ''flaky-plugin'' session_created 7 ''Plugin timeout after 3000ms''
       \<in> set (insights (snd (emit session_created 7 rejecting_manager)))
   \<and> toPluginErrorInsight ''aborting-plugin'' session_created 7 ''abort''
       \<in> set (insights (snd (emit session_created 7 rejecting_manager)))
   \<and> aborted (snd (emit session_created 7 rejecting_manager))
   \<and> fst (emit session_created 7 rejecting_manager) = None"
proof -
  let ?m = rejecting_manager
  have inv: "invoked (snd (emit session_created 7 ?m))
      = [rejecting_plugin, flaky_plugin, aborting_plugin]"
    by (simp add: emit_eval rejecting_examples show_nat.simps digit_char_def
        DEFAULT_TIMEOUT_MS_def)
  have r1: "prefix ([] @ [rejecting_plugin]) (invoked (snd (emit session_created 7 ?m)))"
    and r2: "prefix ([rejecting_plugin] @ [flaky_plugin]) (invoked (snd (emit session_created 7 ?m)))"
    and r3: "prefix ([rejecting_plugin, flaky_plugin] @ [aborting_plugin])
      (invoked (snd (emit session_created 7 ?m)))"
    by (simp_all add: inv)
  have b: "blocking rejecting_plugin" "blocking flaky_plugin" "blocking aborting_plugin"
    by (simp_all add: rejecting_examples)
  have cfg: "fst (resolveConfig rejecting_plugin (config (stateStore ?m) (pid rejecting_plugin)) True ?m)
      = JObj []"
    "fst (resolveConfig flaky_plugin (config (stateStore ?m) (pid flaky_plugin)) True ?m) = JObj []"
    "fst (resolveConfig aborting_plugin (config (stateStore ?m) (pid aborting_plugin)) True ?m)
      = JObj []"
    by (simp_all add: resolveConfig_def nullish_or_def rejecting_examples)
  have h: "onEvent rejecting_plugin session_created (JObj []) = Rejects ''nope''"
    "onEvent flaky_plugin session_created (JObj []) = Hangs"
    "onEvent aborting_plugin session_created (JObj []) = ThrowsSync ''abort''"
    by (simp_all add: rejecting_examples)
  have tm: "''Plugin timeout after 3000ms'' = ''Plugin timeout after ''
      @ show_nat (case timeoutMs flaky_plugin of None \<Rightarrow> DEFAULT_TIMEOUT_MS | Some n \<Rightarrow> n) @ ''ms''"
    by (simp add: rejecting_examples show_nat.simps digit_char_def DEFAULT_TIMEOUT_MS_def)
  have p: "failPolicy rejecting_plugin = Some Continue" "failPolicy flaky_plugin = None"
    "failPolicy aborting_plugin = Some Abort_current_action"
    "pid rejecting_plugin = ''rejecting-plugin''" "pid flaky_plugin = ''flaky-plugin''"
    "pid aborting_plugin = ''aborting-plugin''"
    by (simp_all add: rejecting_examples)
  have cs: "filter (is_enabled (stateStore ?m)) (candidates session_created (definitions ?m))
       = [rejecting_plugin, flaky_plugin, aborting_plugin, strict_plugin]"
    by (simp add: emit_eval rejecting_examples)
  have f1: "onEvent rejecting_plugin session_created
        (fst (resolveConfig rejecting_plugin (config (stateStore ?m) (pid rejecting_plugin)) True ?m))
      = Rejects ''nope''"
    by (simp only: cfg h)
  have f2: "onEvent flaky_plugin session_created
        (fst (resolveConfig flaky_plugin (config (stateStore ?m) (pid flaky_plugin)) True ?m)) = Hangs"
    by (simp only: cfg h)
  have f3: "onEvent aborting_plugin session_created
        (fst (resolveConfig aborting_plugin (config (stateStore ?m) (pid aborting_plugin)) True ?m))
      = ThrowsSync ''abort''"
    by (simp only: cfg h)
  from blocking_failure_policy [OF r1 b(1) disjI2 [OF disjI1 [OF f1]]]
  have A: "toPluginErrorInsight ''rejecting-plugin'' session_created 7 ''nope''
       \<in> set (insights (snd (emit session_created 7 ?m)))"
    by (simp add: p)
  from blocking_failure_policy [OF r2 b(2) disjI2 [OF disjI2 [OF conjI [OF f2 tm]]]]
  have B: "toPluginErrorInsight ''flaky-plugin'' session_created 7 ''Plugin timeout after 3000ms''
       \<in> set (insights (snd (emit session_created 7 ?m)))"
    by (simp add: p)
  from blocking_failure_policy [OF r3 b(3) disjI1 [OF f3]]
  have C: "toPluginErrorInsight ''aborting-plugin'' session_created 7 ''abort''
       \<in> set (insights (snd (emit session_created 7 ?m)))
     \<and> aborted (snd (emit session_created 7 ?m)) \<and> fst (emit session_created 7 ?m) = None"
    by (simp add: p)
  from inv b h p cs A B C show ?thesis by simp
qed

lemma candidates_set:
  "set (candidates event defs) = {p \<in> set defs. name event \<in> set (events p)}"
  by (auto simp: candidates_def)

lemma candidates_sorted:
  "sorted_wrt (\<lambda>p q. priority q \<le> priority p) (candidates event defs)"
proof -
  have "sorted (map (\<lambda>p. - priority p) (candidates event defs))"
    by (simp add: candidates_def)
  then show ?thesis by (simp add: sorted_map)
qed

lemma candidates_stable:
  "filter (\<lambda>p. priority p = k) (candidates event defs)
     = filter (\<lambda>p. priority p = k) (filter (\<lambda>p. name event \<in> set (events p)) defs)"
proof -
  have "filter (\<lambda>p. - priority p = - k) (candidates event defs)
     = filter (\<lambda>p. - priority p = - k) (filter (\<lambda>p. name event \<in> set (events p)) defs)"
    unfolding candidates_def by (rule sort_key_stable)
  then show ?thesis by simp
qed

text \<open>
  C3, as stated, fails when a blocking plugin with \<open>failPolicy\<close>
  \<open>abort_current_action\<close> fails: the plugins after it are enabled and subscribed to the
  event, and are not invoked.
\<close>

theorem emit_invocation_order_counterexample:
  "strict_plugin \<in> set (definitions failing_manager)
   \<and> is_enabled (stateStore failing_manager) strict_plugin
   \<and> name session_created \<in> set (events strict_plugin)
   \<and> map pid (invoked (snd (emit session_created 7 failing_manager)))
       = [''flaky-plugin'', ''aborting-plugin'']
   \<and> aborted (snd (emit session_created 7 failing_manager))"
  by (simp add: emit_eval failing_examples show_nat.simps digit_char_def DEFAULT_TIMEOUT_MS_def)

text \<open>
  C3, amended. Every plugin that \<open>emit\<close> invokes is registered, enabled and subscribed
  to the event. The invocations are in non-increasing priority order, plugins of equal
  priority in the order of registration. When \<open>emit\<close> returns without \<open>aborted\<close>, every
  enabled plugin whose subscriptions contain the event's name was invoked; a plugin left
  out has a priority at most that of every plugin invoked, and when the result is
  \<open>aborted\<close> the last plugin invoked is the blocking one whose failure aborted.
\<close>

theorem emit_invocation_order:
  "(\<forall>p\<in>set (invoked (snd (emit event t m))).
       p \<in> set (definitions m) \<and> is_enabled (stateStore m) p
       \<and> (name event \<in> set (events p) \<or> ''*'' \<in> set (events p)))
   \<and> sorted_wrt (\<lambda>p q. priority q \<le> priority p) (invoked (snd (emit event t m)))
   \<and> subseq (filter (\<lambda>p. priority p = k) (invoked (snd (emit event t m)))) (definitions m)
   \<and> (fst (emit event t m) = None \<and> \<not> aborted (snd (emit event t m)) \<longrightarrow>
        (\<forall>p\<in>set (definitions m).
           is_enabled (stateStore m) p \<and> name event \<in> set (events p)
           \<longrightarrow> p \<in> set (invoked (snd (emit event t m)))))
   \<and> (\<forall>p\<in>set (definitions m).
         is_enabled (stateStore m) p \<and> name event \<in> set (events p)
         \<and> p \<notin> set (invoked (snd (emit event t m)))
         \<longrightarrow> (\<forall>q\<in>set (invoked (snd (emit event t m))). priority p \<le> priority q))
   \<and> (aborted (snd (emit event t m)) \<longrightarrow>
         invoked (snd (emit event t m)) \<noteq> []
         \<and> aborts event (stateStore m) (last (invoked (snd (emit event t m)))))"
proof -
  let ?st = "stateStore m"
  let ?cs = "candidates event (definitions m)"
  let ?fs = "filter (is_enabled ?st) ?cs"
  let ?inv = "invoked (snd (emit event t m))"
  have inv: "?inv = dispatched event ?st ?cs" by (rule emit_invoked)
  have pre: "prefix ?inv ?fs" unfolding inv by (rule dispatched_prefix)
  then obtain rest where fs: "?fs = ?inv @ rest" by (auto simp: prefix_def)
  have sub: "set ?inv \<subseteq> set ?fs" using pre by (rule set_mono_prefix)
  have a: "\<forall>p\<in>set ?inv. p \<in> set (definitions m) \<and> is_enabled ?st p
       \<and> (name event \<in> set (events p) \<or> ''*'' \<in> set (events p))"
    using sub by (auto simp: candidates_set)
  have sfs: "sorted_wrt (\<lambda>p q. priority q \<le> priority p) ?fs"
    using candidates_sorted by (rule sorted_wrt_filter)
  then have b: "sorted_wrt (\<lambda>p q. priority q \<le> priority p) ?inv"
    unfolding fs by (simp add: sorted_wrt_append)
  have swap: "filter P (filter Q zs) = filter Q (filter P zs)"
    for P Q and zs :: "plugin_definition list"
    by (induction zs) auto
  have "subseq (filter (\<lambda>p. priority p = k) ?inv) (filter (\<lambda>p. priority p = k) ?fs)"
    using pre by (intro prefix_imp_subseq filter_mono_prefix)
  also have "filter (\<lambda>p. priority p = k) ?fs
      = filter (is_enabled ?st) (filter (\<lambda>p. priority p = k)
          (filter (\<lambda>p. name event \<in> set (events p)) (definitions m)))"
    by (simp only: swap [of "\<lambda>p. priority p = k"] candidates_stable)
  also have "subseq \<dots> (filter (\<lambda>p. priority p = k)
          (filter (\<lambda>p. name event \<in> set (events p)) (definitions m)))"
    by (rule subseq_filter_left)
  also have "subseq \<dots> (filter (\<lambda>p. name event \<in> set (events p)) (definitions m))"
    by (rule subseq_filter_left)
  also have "subseq \<dots> (definitions m)"
    by (rule subseq_filter_left)
  finally have c: "subseq (filter (\<lambda>p. priority p = k) ?inv) (definitions m)" .
  have d: "\<forall>p\<in>set (definitions m). is_enabled ?st p \<and> name event \<in> set (events p) \<longrightarrow> p \<in> set ?inv"
    if "fst (emit event t m) = None" "\<not> aborted (snd (emit event t m))"
  proof -
    from that(1) have "\<forall>p\<in>set ?inv. throws_unguarded event ?st p = None"
      unfolding inv by (simp add: emit_def dispatch_loop_rejected first_some_None_iff)
    moreover from that(2) have "\<forall>p\<in>set ?inv. \<not> aborts event ?st p"
      unfolding inv by (simp add: emit_def dispatch_loop_aborted list_ex_iff)
    ultimately have "\<not> list_ex (stops event ?st) (dispatched event ?st ?cs)"
      by (simp add: list_ex_iff stops_def inv)
    from dispatched_all [OF this] have "?inv = ?fs" by (simp add: inv)
    then show ?thesis by (auto simp: candidates_set)
  qed
  have e: "\<forall>p\<in>set (definitions m). is_enabled ?st p \<and> name event \<in> set (events p)
         \<and> p \<notin> set ?inv \<longrightarrow> (\<forall>q\<in>set ?inv. priority p \<le> priority q)"
  proof (intro ballI impI)
    fix p q assume p: "p \<in> set (definitions m)"
      and h: "is_enabled ?st p \<and> name event \<in> set (events p) \<and> p \<notin> set ?inv"
      and q: "q \<in> set ?inv"
    from p h have "p \<in> set ?fs" by (simp add: candidates_set)
    with h have "p \<in> set rest" by (metis Un_iff fs set_append)
    with sfs q show "priority p \<le> priority q"
      by (metis fs sorted_wrt_append)
  qed
  have f: "?inv \<noteq> [] \<and> aborts event ?st (last ?inv)" if "aborted (snd (emit event t m))"
  proof -
    from that obtain p where p: "p \<in> set ?inv" "aborts event ?st p"
      unfolding inv by (auto simp: emit_def dispatch_loop_aborted list_ex_iff)
    then obtain xs ys where dec: "?inv = xs @ p # ys" by (auto simp: in_set_conv_decomp)
    from p(2) have "stops event ?st p" by (simp add: stops_def)
    from dispatched_stop_last [OF _ this, of ?cs xs ys] dec have "ys = []" by (simp add: inv)
    with dec p(2) show ?thesis by simp
  qed
  from a b c d e f show ?thesis by blast
qed

theorem emit_invocation_order_witness:
  "fst (emit permission_requested 7 deciding_manager) = None
   \<and> \<not> aborted (snd (emit permission_requested 7 deciding_manager))
   \<and> gated_plugin \<in> set (definitions deciding_manager)
   \<and> is_enabled (stateStore deciding_manager) gated_plugin
   \<and> name permission_requested \<in> set (events gated_plugin)
   \<and> gated_plugin \<in> set (invoked (snd (emit permission_requested 7 deciding_manager)))
   \<and> sorted_wrt (\<lambda>p q. priority q \<le> priority p)
        (invoked (snd (emit permission_requested 7 deciding_manager)))
   \<and> aborted (snd (emit session_created 7 failing_manager))
   \<and> aborts session_created (stateStore failing_manager)
        (last (invoked (snd (emit session_created 7 failing_manager))))"
proof -
  have h1: "fst (emit permission_requested 7 deciding_manager) = None
      \<and> \<not> aborted (snd (emit permission_requested 7 deciding_manager))"
    by (simp add: emit_eval plugin_examples)
  have h2: "gated_plugin \<in> set (definitions deciding_manager)
      \<and> is_enabled (stateStore deciding_manager) gated_plugin
      \<and> name permission_requested \<in> set (events gated_plugin)"
    by (simp add: is_enabled_def deciding_manager_def empty_state_def gated_plugin_def
        permission_requested_def)
  have h3: "aborted (snd (emit session_created 7 failing_manager))"
    by (simp add: emit_eval failing_examples show_nat.simps digit_char_def DEFAULT_TIMEOUT_MS_def)
  from emit_invocation_order [of permission_requested 7 deciding_manager 10]
    emit_invocation_order [of session_created 7 failing_manager 100] h1 h2 h3
  show ?thesis by blast
qed

text \<open>The grants of the state store have no effect on what \<open>emit\<close> does.\<close>

lemma grants_irrelevant:
  "is_enabled (state\<lparr>grants := g\<rparr>) = is_enabled state"
  "plugin_outcome event (state\<lparr>grants := g\<rparr>) = plugin_outcome event state"
  "behaviour_of event (state\<lparr>grants := g\<rparr>) = behaviour_of event state"
  by (simp_all add: fun_eq_iff is_enabled_def plugin_outcome_def behaviour_of_def
      resolved_config_def)

lemma grants_irrelevant_plugin:
  "decision_of event (state\<lparr>grants := g\<rparr>) = decision_of event state"
  "blocking_insights event (state\<lparr>grants := g\<rparr>) = blocking_insights event state"
  "aborts event (state\<lparr>grants := g\<rparr>) = aborts event state"
  "throws_unguarded event (state\<lparr>grants := g\<rparr>) = throws_unguarded event state"
  "stops event (state\<lparr>grants := g\<rparr>) = stops event state"
  by (simp_all add: fun_eq_iff decision_of_def blocking_insights_def aborts_def fails_with_def
      throws_unguarded_def stops_def grants_irrelevant)

lemma dispatched_grants:
  "dispatched event (state\<lparr>grants := g\<rparr>) ps = dispatched event state ps"
  by (induction ps) (simp_all add: grants_irrelevant grants_irrelevant_plugin)

lemma emit_grants_irrelevant:
  "fst (emit event t (m\<lparr>stateStore := (stateStore m)\<lparr>grants := g\<rparr>\<rparr>)) = fst (emit event t m)
   \<and> permissionDecision (snd (emit event t (m\<lparr>stateStore := (stateStore m)\<lparr>grants := g\<rparr>\<rparr>)))
       = permissionDecision (snd (emit event t m))
   \<and> insights (snd (emit event t (m\<lparr>stateStore := (stateStore m)\<lparr>grants := g\<rparr>\<rparr>)))
       = insights (snd (emit event t m))
   \<and> aborted (snd (emit event t (m\<lparr>stateStore := (stateStore m)\<lparr>grants := g\<rparr>\<rparr>)))
       = aborted (snd (emit event t m))
   \<and> invoked (snd (emit event t (m\<lparr>stateStore := (stateStore m)\<lparr>grants := g\<rparr>\<rparr>)))
       = invoked (snd (emit event t m))"
  by (simp add: emit_def dispatch_loop_rejected dispatch_loop_decision dispatch_loop_insights
      dispatch_loop_aborted dispatch_loop_invoked dispatched_grants grants_irrelevant_plugin)

text \<open>
  C1. The claim is that a decision returned by a plugin without the grant
  \<open>permission:auto-decide\<close> never appears in the result of \<open>emit\<close> and that a
  "Capability blocked" insight does. \<open>emit\<close> does not consult capabilities or grants:
  for the plugin of the test "applies capability grants to block privileged outputs",
  whose grant is false, the decision is in the result and the insights are empty.
\<close>

theorem emit_ignores_capability_grants:
  "grants (stateStore gated_manager) ''gated-plugin'' ''permission:auto-decide'' = Some False
   \<and> fst (emit permission_requested 7 gated_manager) = None
   \<and> permissionDecision (snd (emit permission_requested 7 gated_manager)) = Some deny_decision
   \<and> insights (snd (emit permission_requested 7 gated_manager)) = []"
  by (simp add: emit_eval gated_manager_def gated_plugin_def empty_state_def
      permission_requested_def)

end
